theory Spec2Isabelle
  imports Complex_Main "HOL-Library.Sublist"
begin

section \<open>The graph IR of the LightOS model compiler\<close>

text \<open>
  A shallow embedding of \<^verbatim>\<open>src/tools/model_compiler.py\<close>. Every class of the source is a
  record or a datatype with the source's field names (\<^verbatim>\<open>GraphNode.id\<close> is \<open>node_id\<close>,
  since \<open>id\<close> is the identity function of HOL). Python integers are \<open>int\<close>, list
  positions are \<open>nat\<close>. A Python float is the \<open>real\<close> number it denotes, and every
  floating-point operation of the source is the exact operation followed by the rounding
  \<open>fl_round\<close> of section \<open>Floating-point arithmetic\<close>. The source mutates the
  graph and the compiler's statistics in place; here every pass takes the compiler and
  the graph and returns both. Output written with \<^verbatim>\<open>print\<close> is not modelled.
\<close>

datatype OpType =
    MATMUL | CONV2D
  | RELU | GELU | SILU | SOFTMAX
  | LAYERNORM | BATCHNORM | RMSNORM
  | ATTENTION | MULTI_HEAD_ATTENTION
  | ADD | MUL
  | FUSED_MATMUL_RELU | FUSED_MATMUL_GELU
  | FUSED_CONV_BATCHNORM_RELU | FUSED_LAYERNORM_ATTENTION

datatype DataType = FP32 | FP16 | BF16 | FP8 | INT8 | INT4

record TensorShape =
  dims :: "int list"
  dtype :: DataType

text \<open>The attribute values of a node have the Python type \<^verbatim>\<open>any\<close>: a type parameter.\<close>

record 'a GraphNode =
  node_id :: int
  op_type :: OpType
  name :: string
  inputs :: "int list"
  outputs :: "int list"
  attributes :: "string \<rightharpoonup> 'a"
  execution_time_ms :: real
  memory_usage_mb :: real

record 'a ComputationalGraph =
  nodes :: "'a GraphNode list"
  tensors :: "int \<rightharpoonup> TensorShape"
  input_ids :: "int list"
  output_ids :: "int list"
  optimized :: bool

record CompilationStats =
  original_ops :: int
  optimized_ops :: int
  ops_fused :: int
  constants_folded :: int
  dead_ops_removed :: int
  compilation_time_ms :: real

record ModelCompiler =
  optimization_level :: int
  stats :: CompilationStats

text \<open>\<^verbatim>\<open>CompilationStats.__init__\<close> and \<^verbatim>\<open>ModelCompiler.__init__\<close>.\<close>

definition CompilationStats_init :: CompilationStats where
  "CompilationStats_init =
     \<lparr>original_ops = 0, optimized_ops = 0, ops_fused = 0, constants_folded = 0,
      dead_ops_removed = 0, compilation_time_ms = 0\<rparr>"

definition ModelCompiler_init :: "int \<Rightarrow> ModelCompiler" where
  "ModelCompiler_init level = \<lparr>optimization_level = level, stats = CompilationStats_init\<rparr>"

text \<open>
  The constructor of \<^verbatim>\<open>GraphNode\<close> with its two defaulted profiling fields, and the
  constructor of \<^verbatim>\<open>ComputationalGraph\<close>, whose \<^verbatim>\<open>__post_init__\<close> clears the flag.
\<close>

definition GraphNode_init ::
  "int \<Rightarrow> OpType \<Rightarrow> string \<Rightarrow> int list \<Rightarrow> int list \<Rightarrow> (string \<rightharpoonup> 'a) \<Rightarrow> 'a GraphNode" where
  "GraphNode_init i k nm ins outs attrs =
     \<lparr>node_id = i, op_type = k, name = nm, inputs = ins, outputs = outs,
      attributes = attrs, execution_time_ms = 0, memory_usage_mb = 0\<rparr>"

definition ComputationalGraph_init ::
  "'a GraphNode list \<Rightarrow> (int \<rightharpoonup> TensorShape) \<Rightarrow> int list \<Rightarrow> int list \<Rightarrow> 'a ComputationalGraph" where
  "ComputationalGraph_init ns ts ins outs =
     \<lparr>nodes = ns, tensors = ts, input_ids = ins, output_ids = outs, optimized = False\<rparr>"

text \<open>
  \<^verbatim>\<open>list.pop(idx)\<close>, result dropped. Python raises \<^verbatim>\<open>IndexError\<close> when
  \<open>idx\<close> is not a position of the list; every call below is at a position of the list
  (lemma \<open>cf_idx_range\<close> and the guards of the fusion loop).
\<close>

definition list_pop :: "nat \<Rightarrow> 'b list \<Rightarrow> 'b list" where
  "list_pop idx xs = take idx xs @ drop (Suc idx) xs"

section \<open>Floating-point arithmetic\<close>

text \<open>
  Python floats are IEEE 754 binary64 numbers: 53 significant bits, every operation
  rounded to the nearest representable number, a tie to the one with an even significand.
  \<open>fl_round x\<close> scales \<open>x\<close> by the power of two that brings its magnitude into
  \<open>[2^52, 2^53)\<close>, rounds to an integer, and scales back. The exponent range is not
  modelled (no overflow to infinity, no subnormal numbers): the profiler only handles sums
  of the times 0.5, 3.5 and 5.0, their quotients and percentages, and the compiler one
  difference of clock readings.
\<close>

definition round_even :: "real \<Rightarrow> int" where
  "round_even q =
     (let f = \<lfloor>q\<rfloor>
      in if q - of_int f < 1 / 2 then f
         else if q - of_int f > 1 / 2 then f + 1
         else if even f then f else f + 1)"

definition fl_round :: "real \<Rightarrow> real" where
  "fl_round x =
     (if x = 0 then 0
      else let e = \<lfloor>log 2 \<bar>x\<bar>\<rfloor> - 52
           in of_int (round_even (x / 2 powr of_int e)) * 2 powr of_int e)"

definition fl_add :: "real \<Rightarrow> real \<Rightarrow> real" where
  "fl_add x y = fl_round (x + y)"

definition fl_sub :: "real \<Rightarrow> real \<Rightarrow> real" where
  "fl_sub x y = fl_round (x - y)"

definition fl_mul :: "real \<Rightarrow> real \<Rightarrow> real" where
  "fl_mul x y = fl_round (x * y)"

definition fl_div :: "real \<Rightarrow> real \<Rightarrow> real" where
  "fl_div x y = fl_round (x / y)"

text \<open>
  The builtin \<^verbatim>\<open>sum\<close> on a list of floats: it starts from the integer 0 and adds the
  elements from left to right.
\<close>

definition fl_sum :: "real list \<Rightarrow> real" where
  "fl_sum ts = foldl fl_add 0 ts"

section \<open>Constant folding\<close>

text \<open>
  \<^verbatim>\<open>_constant_folding\<close>: the set \<^verbatim>\<open>constant_tensors\<close> starts empty; one sweep over
  \<^verbatim>\<open>enumerate(graph.nodes)\<close> records the positions to remove, marks the outputs of the
  recorded nodes constant and counts them; the recorded positions are then popped from the
  highest to the lowest.
\<close>

definition all_inputs_constant :: "int set \<Rightarrow> 'a GraphNode \<Rightarrow> bool" where
  "all_inputs_constant constant_tensors node =
     (\<forall>inp_id \<in> set (inputs node). inp_id \<in> constant_tensors)"

fun cf_scan ::
  "nat \<Rightarrow> 'a GraphNode list \<Rightarrow> int set \<times> nat list \<times> int \<Rightarrow> int set \<times> nat list \<times> int" where
  "cf_scan i [] st = st"
| "cf_scan i (node # rest) (constant_tensors, nodes_to_remove, folded) =
     (if all_inputs_constant constant_tensors node \<and> op_type node \<in> {ADD, MUL}
      then cf_scan (Suc i) rest
             (constant_tensors \<union> set (outputs node), nodes_to_remove @ [i], folded + 1)
      else cf_scan (Suc i) rest (constant_tensors, nodes_to_remove, folded))"

fun pop_all :: "nat list \<Rightarrow> 'b list \<Rightarrow> 'b list" where
  "pop_all [] xs = xs"
| "pop_all (idx # idxs) xs = pop_all idxs (list_pop idx xs)"

definition constant_folding ::
  "ModelCompiler \<Rightarrow> 'a ComputationalGraph \<Rightarrow> ModelCompiler \<times> 'a ComputationalGraph" where
  "constant_folding self graph =
     (case cf_scan 0 (nodes graph) ({}, [], constants_folded (stats self)) of
        (constant_tensors, nodes_to_remove, folded) \<Rightarrow>
          (self\<lparr>stats := (stats self)\<lparr>constants_folded := folded\<rparr>\<rparr>,
           graph\<lparr>nodes := pop_all (rev nodes_to_remove) (nodes graph)\<rparr>))"

section \<open>Dead code elimination\<close>

text \<open>
  \<^verbatim>\<open>_dead_code_elimination\<close>: a worklist of tensor ids, popped from the end. For the popped
  id, every node that lists it among its outputs has each input that is not yet reachable
  added to the set and appended to the worklist.
\<close>

fun mark_inputs :: "int list \<Rightarrow> int set \<times> int list \<Rightarrow> int set \<times> int list" where
  "mark_inputs [] st = st"
| "mark_inputs (inp_id # rest) (reachable, worklist) =
     (if inp_id \<notin> reachable
      then mark_inputs rest (insert inp_id reachable, worklist @ [inp_id])
      else mark_inputs rest (reachable, worklist))"

fun visit_producers ::
  "int \<Rightarrow> 'a GraphNode list \<Rightarrow> int set \<times> int list \<Rightarrow> int set \<times> int list" where
  "visit_producers tensor_id [] st = st"
| "visit_producers tensor_id (node # rest) st =
     (if tensor_id \<in> set (outputs node)
      then visit_producers tensor_id rest (mark_inputs (inputs node) st)
      else visit_producers tensor_id rest st)"

definition all_inputs :: "'a GraphNode list \<Rightarrow> int set" where
  "all_inputs ns = (\<Union>n \<in> set ns. set (inputs n))"

lemma mark_inputs_grows:
  "mark_inputs ins (r, w) = (r', w') \<Longrightarrow>
     r \<subseteq> r' \<and> r' \<subseteq> r \<union> set ins \<and> (r' = r \<longrightarrow> w' = w)"
proof (induction ins arbitrary: r w)
  case Nil
  then show ?case by simp
next
  case (Cons a ins)
  show ?case
  proof (cases "a \<in> r")
    case True
    with Cons.prems have "mark_inputs ins (r, w) = (r', w')" by simp
    from Cons.IH [OF this] show ?thesis by auto
  next
    case False
    with Cons.prems have "mark_inputs ins (insert a r, w @ [a]) = (r', w')" by simp
    from Cons.IH [OF this] False show ?thesis by auto
  qed
qed

lemma visit_producers_grows:
  "visit_producers t ns (r, w) = (r', w') \<Longrightarrow>
     r \<subseteq> r' \<and> r' \<subseteq> r \<union> all_inputs ns \<and> (r' = r \<longrightarrow> w' = w)"
proof (induction ns arbitrary: r w)
  case Nil
  then show ?case by simp
next
  case (Cons n ns)
  show ?case
  proof (cases "t \<in> set (outputs n)")
    case False
    with Cons.prems have "visit_producers t ns (r, w) = (r', w')" by simp
    from Cons.IH [OF this] show ?thesis by (auto simp: all_inputs_def)
  next
    case True
    obtain r1 w1 where m: "mark_inputs (inputs n) (r, w) = (r1, w1)"
      by (cases "mark_inputs (inputs n) (r, w)")
    with True Cons.prems have v: "visit_producers t ns (r1, w1) = (r', w')" by simp
    note a = mark_inputs_grows [OF m] and b = Cons.IH [OF v]
    have "r \<subseteq> r'" using a b by blast
    moreover have "r' \<subseteq> r \<union> all_inputs (n # ns)"
      using a b by (auto simp: all_inputs_def)
    moreover have "r' = r \<longrightarrow> w' = w"
    proof
      assume e: "r' = r"
      with a b have "r1 = r" by blast
      with a b e show "w' = w" by simp
    qed
    ultimately show ?thesis by blast
  qed
qed

function dce_worklist :: "'a GraphNode list \<Rightarrow> int set \<Rightarrow> int list \<Rightarrow> int set" where
  "dce_worklist ns reachable worklist =
     (if worklist = [] then reachable
      else case visit_producers (last worklist) ns (reachable, butlast worklist) of
             (reachable', worklist') \<Rightarrow> dce_worklist ns reachable' worklist')"
  by pat_completeness auto
termination
proof (relation "inv_image (less_than <*lex*> less_than)
         (\<lambda>(ns, r, w). (card (all_inputs ns - r), length w))")
  show "wf (inv_image (less_than <*lex*> less_than)
         (\<lambda>(ns :: 'a GraphNode list, r, w :: int list). (card (all_inputs ns - r), length w)))"
    by (intro wf_inv_image wf_lex_prod wf_less_than)
next
  fix ns :: "'a GraphNode list" and reachable :: "int set" and worklist :: "int list"
    and r' w'
  assume ne: "worklist \<noteq> []"
    and p: "(r', w') = visit_producers (last worklist) ns (reachable, butlast worklist)"
  from p have v: "visit_producers (last worklist) ns (reachable, butlast worklist) = (r', w')"
    by simp
  note g = visit_producers_grows [OF v]
  have fin: "finite (all_inputs ns - reachable)" by (simp add: all_inputs_def)
  show "((ns, r', w'), (ns, reachable, worklist))
          \<in> inv_image (less_than <*lex*> less_than)
              (\<lambda>(ns, r, w). (card (all_inputs ns - r), length w))"
  proof (cases "r' = reachable")
    case True
    with g have "w' = butlast worklist" by simp
    with True ne show ?thesis by simp
  next
    case False
    with g have "all_inputs ns - r' \<subset> all_inputs ns - reachable" by blast
    from psubset_card_mono [OF fin this] show ?thesis by simp
  qed
qed

declare dce_worklist.simps [simp del]

definition dead_code_elimination ::
  "ModelCompiler \<Rightarrow> 'a ComputationalGraph \<Rightarrow> ModelCompiler \<times> 'a ComputationalGraph" where
  "dead_code_elimination self graph =
     (let reachable = dce_worklist (nodes graph) (set (output_ids graph)) (output_ids graph);
          original_count = int (length (nodes graph));
          kept = filter (\<lambda>node. \<exists>out_id \<in> set (outputs node). out_id \<in> reachable) (nodes graph);
          removed = original_count - int (length kept)
      in (self\<lparr>stats := (stats self)\<lparr>dead_ops_removed := dead_ops_removed (stats self) + removed\<rparr>\<rparr>,
          graph\<lparr>nodes := kept\<rparr>))"

section \<open>Operator fusion\<close>

text \<open>
  \<^verbatim>\<open>_can_fuse\<close>: the Python \<^verbatim>\<open>and\<close> reads \<^verbatim>\<open>outputs[0]\<close> and \<^verbatim>\<open>inputs[0]\<close> only
  after both lengths were found to be one.
\<close>

definition can_fuse :: "'a GraphNode \<Rightarrow> 'a GraphNode \<Rightarrow> bool" where
  "can_fuse node1 node2 =
     (length (outputs node1) = 1 \<and> length (inputs node2) = 1 \<and>
      outputs node1 ! 0 = inputs node2 ! 0)"

definition can_fuse_triple :: "'a GraphNode \<Rightarrow> 'a GraphNode \<Rightarrow> 'a GraphNode \<Rightarrow> bool" where
  "can_fuse_triple node1 node2 node3 = (can_fuse node1 node2 \<and> can_fuse node2 node3)"

text \<open>\<^verbatim>\<open>str\<close> of a Python integer, for the names of fused nodes.\<close>

fun str_nat :: "nat \<Rightarrow> string" where
  "str_nat n =
     (if n < 10 then [char_of (48 + n)]
      else str_nat (n div 10) @ [char_of (48 + n mod 10)])"

declare str_nat.simps [simp del]

definition str_int :: "int \<Rightarrow> string" where
  "str_int i = (if i < 0 then CHR ''-'' # str_nat (nat (- i)) else str_nat (nat i))"

text \<open>
  The three constructors of fused nodes. A Python dict display \<^verbatim>\<open>{**a, **b}\<close> is
  the map \<open>a ++ b\<close>: on a key of both, the value of \<open>b\<close>.
\<close>

definition fuse_matmul_activation ::
  "'a GraphNode \<Rightarrow> 'a GraphNode \<Rightarrow> OpType \<Rightarrow> 'a GraphNode" where
  "fuse_matmul_activation matmul activation fused_type =
     GraphNode_init (node_id matmul) fused_type
       (''fused_'' @ name matmul @ ''_'' @ name activation)
       (inputs matmul) (outputs activation) (attributes matmul)"

definition fuse_layernorm_attention :: "'a GraphNode \<Rightarrow> 'a GraphNode \<Rightarrow> 'a GraphNode" where
  "fuse_layernorm_attention layernorm attention =
     GraphNode_init (node_id layernorm) FUSED_LAYERNORM_ATTENTION
       (''fused_ln_attn_'' @ str_int (node_id layernorm))
       (inputs layernorm) (outputs attention)
       (attributes layernorm ++ attributes attention)"

definition fuse_conv_bn_relu ::
  "'a GraphNode \<Rightarrow> 'a GraphNode \<Rightarrow> 'a GraphNode \<Rightarrow> 'a GraphNode" where
  "fuse_conv_bn_relu conv bn relu =
     GraphNode_init (node_id conv) FUSED_CONV_BATCHNORM_RELU
       (''fused_conv_bn_relu_'' @ str_int (node_id conv))
       (inputs conv) (outputs relu)
       (attributes conv ++ attributes bn)"

text \<open>
  The \<^verbatim>\<open>while\<close> loop of \<^verbatim>\<open>_operator_fusion\<close>, on the position \<open>i\<close>, the node list and
  the counter \<^verbatim>\<open>stats.ops_fused\<close>. The loop guard \<^verbatim>\<open>i < len(graph.nodes) - 1\<close> is
  \<open>i + 1 < length ns\<close> on naturals, and \<^verbatim>\<open>i < len(graph.nodes) - 2\<close> is
  \<open>i + 2 < length ns\<close>. A branch that fuses ends in \<^verbatim>\<open>continue\<close> (same \<open>i\<close>, shorter
  list); a pattern whose kinds match but whose \<^verbatim>\<open>_can_fuse\<close> fails falls through to
  the next pattern, so the nested tests of the source are the chain of tests here.
\<close>

function operator_fusion_loop ::
  "nat \<Rightarrow> 'a GraphNode list \<Rightarrow> int \<Rightarrow> 'a GraphNode list \<times> int" where
  "operator_fusion_loop i ns fused =
     (if i + 1 < length ns then
        (let node1 = ns ! i; node2 = ns ! (i + 1) in
         if op_type node1 = MATMUL \<and> op_type node2 = RELU \<and> can_fuse node1 node2 then
           operator_fusion_loop i
             (list_pop (i + 1) (ns[i := fuse_matmul_activation node1 node2 FUSED_MATMUL_RELU]))
             (fused + 1)
         else if op_type node1 = MATMUL \<and> op_type node2 = GELU \<and> can_fuse node1 node2 then
           operator_fusion_loop i
             (list_pop (i + 1) (ns[i := fuse_matmul_activation node1 node2 FUSED_MATMUL_GELU]))
             (fused + 1)
         else if op_type node1 = LAYERNORM
                 \<and> op_type node2 \<in> {ATTENTION, MULTI_HEAD_ATTENTION}
                 \<and> can_fuse node1 node2 then
           operator_fusion_loop i
             (list_pop (i + 1) (ns[i := fuse_layernorm_attention node1 node2]))
             (fused + 1)
         else if i + 2 < length ns
                 \<and> op_type node1 = CONV2D \<and> op_type node2 = BATCHNORM
                 \<and> op_type (ns ! (i + 2)) = RELU
                 \<and> can_fuse_triple node1 node2 (ns ! (i + 2)) then
           operator_fusion_loop i
             (list_pop (i + 1)
                (list_pop (i + 2) (ns[i := fuse_conv_bn_relu node1 node2 (ns ! (i + 2))])))
             (fused + 2)
         else operator_fusion_loop (i + 1) ns fused)
      else (ns, fused))"
  by pat_completeness auto
termination
  by (relation "measure (\<lambda>(i, ns, fused). length ns - i)") (auto simp: list_pop_def)

declare operator_fusion_loop.simps [simp del]

definition operator_fusion ::
  "ModelCompiler \<Rightarrow> 'a ComputationalGraph \<Rightarrow> ModelCompiler \<times> 'a ComputationalGraph" where
  "operator_fusion self graph =
     (case operator_fusion_loop 0 (nodes graph) (ops_fused (stats self)) of
        (ns, fused) \<Rightarrow>
          (self\<lparr>stats := (stats self)\<lparr>ops_fused := fused\<rparr>\<rparr>, graph\<lparr>nodes := ns\<rparr>))"

text \<open>\<^verbatim>\<open>_layout_optimization\<close> and \<^verbatim>\<open>_kernel_fusion_experimental\<close> return the graph.\<close>

definition layout_optimization ::
  "ModelCompiler \<Rightarrow> 'a ComputationalGraph \<Rightarrow> ModelCompiler \<times> 'a ComputationalGraph" where
  "layout_optimization self graph = (self, graph)"

definition kernel_fusion_experimental ::
  "ModelCompiler \<Rightarrow> 'a ComputationalGraph \<Rightarrow> ModelCompiler \<times> 'a ComputationalGraph" where
  "kernel_fusion_experimental self graph = (self, graph)"

section \<open>The pipeline\<close>

text \<open>
  \<^verbatim>\<open>compile\<close>. The two readings of \<^verbatim>\<open>time.perf_counter()\<close> are the arguments
  \<open>start_time\<close> and \<open>end_time\<close>.
\<close>

definition compile ::
  "real \<Rightarrow> real \<Rightarrow> ModelCompiler \<Rightarrow> 'a ComputationalGraph
     \<Rightarrow> ModelCompiler \<times> 'a ComputationalGraph" where
  "compile start_time end_time self graph =
     (let self0 = self\<lparr>stats := (stats self)\<lparr>original_ops := int (length (nodes graph))\<rparr>\<rparr>;
          (self1, graph1) =
             (if optimization_level self0 \<ge> 1
              then (case constant_folding self0 graph of
                      (s, g) \<Rightarrow> dead_code_elimination s g)
              else (self0, graph));
          (self2, graph2) =
             (if optimization_level self1 \<ge> 2
              then (case operator_fusion self1 graph1 of
                      (s, g) \<Rightarrow> layout_optimization s g)
              else (self1, graph1));
          (self3, graph3) =
             (if optimization_level self2 \<ge> 3
              then kernel_fusion_experimental self2 graph2
              else (self2, graph2));
          self4 = self3\<lparr>stats := (stats self3)
                    \<lparr>optimized_ops := int (length (nodes graph3)),
                     compilation_time_ms := fl_mul (fl_sub end_time start_time) 1000\<rparr>\<rparr>
      in (self4, graph3\<lparr>optimized := True\<rparr>))"

section \<open>The profiler\<close>

text \<open>
  \<^verbatim>\<open>OpType.name\<close>, the member name of the enumeration, and the Python test
  \<^verbatim>\<open>"FUSED" in s\<close> on strings.
\<close>

fun OpType_name :: "OpType \<Rightarrow> string" where
  "OpType_name MATMUL = ''MATMUL''"
| "OpType_name CONV2D = ''CONV2D''"
| "OpType_name RELU = ''RELU''"
| "OpType_name GELU = ''GELU''"
| "OpType_name SILU = ''SILU''"
| "OpType_name SOFTMAX = ''SOFTMAX''"
| "OpType_name LAYERNORM = ''LAYERNORM''"
| "OpType_name BATCHNORM = ''BATCHNORM''"
| "OpType_name RMSNORM = ''RMSNORM''"
| "OpType_name ATTENTION = ''ATTENTION''"
| "OpType_name MULTI_HEAD_ATTENTION = ''MULTI_HEAD_ATTENTION''"
| "OpType_name ADD = ''ADD''"
| "OpType_name MUL = ''MUL''"
| "OpType_name FUSED_MATMUL_RELU = ''FUSED_MATMUL_RELU''"
| "OpType_name FUSED_MATMUL_GELU = ''FUSED_MATMUL_GELU''"
| "OpType_name FUSED_CONV_BATCHNORM_RELU = ''FUSED_CONV_BATCHNORM_RELU''"
| "OpType_name FUSED_LAYERNORM_ATTENTION = ''FUSED_LAYERNORM_ATTENTION''"

fun str_contains :: "string \<Rightarrow> string \<Rightarrow> bool" where
  "str_contains pat [] = (pat = [])"
| "str_contains pat (c # cs) = (prefix pat (c # cs) \<or> str_contains pat cs)"

definition simulated_time :: "OpType \<Rightarrow> real" where
  "simulated_time k =
     (if k \<in> {MATMUL, CONV2D} then 5
      else if str_contains ''FUSED'' (OpType_name k) then 7 / 2
      else 1 / 2)"

record OpStats =
  count :: int
  total_time_ms :: real
  avg_time_ms :: real
  percentage :: real

record ProfileReport =
  total_execution_time_ms :: real
  total_memory_mb :: real
  num_operations :: int
  op_breakdown :: "string \<rightharpoonup> OpStats"

text \<open>
  The loop over \<^verbatim>\<open>graph.nodes\<close>: it stores the simulated time in the node, appends it
  to the list kept for the node's kind in the dict \<^verbatim>\<open>op_times\<close>, and adds it to
  \<^verbatim>\<open>total_time\<close>. The result carries the nodes as the loop leaves them.
\<close>

fun profile_nodes ::
  "'a GraphNode list \<Rightarrow> (string \<rightharpoonup> real list) \<times> real
     \<Rightarrow> 'a GraphNode list \<times> (string \<rightharpoonup> real list) \<times> real" where
  "profile_nodes [] (op_times, total_time) = ([], op_times, total_time)"
| "profile_nodes (node # rest) (op_times, total_time) =
     (let node' = node\<lparr>execution_time_ms := simulated_time (op_type node)\<rparr>;
          op_name = OpType_name (op_type node');
          op_times1 = (if op_times op_name = None then op_times(op_name \<mapsto> []) else op_times);
          op_times2 = op_times1(op_name \<mapsto> the (op_times1 op_name) @ [execution_time_ms node'])
      in case profile_nodes rest (op_times2, fl_add total_time (execution_time_ms node')) of
           (rest', op_times', total_time') \<Rightarrow> (node' # rest', op_times', total_time'))"

definition op_stats_of :: "real \<Rightarrow> real list \<Rightarrow> OpStats" where
  "op_stats_of total_time ts =
     \<lparr>count = int (length ts),
      total_time_ms = fl_sum ts,
      avg_time_ms = fl_div (fl_sum ts) (real (length ts)),
      percentage = (if total_time > 0 then fl_mul (fl_div (fl_sum ts) total_time) 100 else 0)\<rparr>"

definition profile_graph :: "'a ComputationalGraph \<Rightarrow> 'a ComputationalGraph \<times> ProfileReport" where
  "profile_graph graph =
     (case profile_nodes (nodes graph) (Map.empty, 0) of
        (ns, op_times, total_time) \<Rightarrow>
          (graph\<lparr>nodes := ns\<rparr>,
           \<lparr>total_execution_time_ms = total_time,
            total_memory_mb = 0,
            num_operations = int (length (nodes graph)),
            op_breakdown = map_option (op_stats_of total_time) \<circ> op_times\<rparr>))"

section \<open>Constant folding as a filter\<close>

text \<open>
  The sweep and the pops of \<^verbatim>\<open>_constant_folding\<close> together keep, in order, the nodes
  that the sweep does not record: \<open>cf_keep\<close>, with the set of constant tensors as it
  stands when the sweep reaches each node.
\<close>

definition foldable :: "int set \<Rightarrow> 'a GraphNode \<Rightarrow> bool" where
  "foldable C n = (all_inputs_constant C n \<and> op_type n \<in> {ADD, MUL})"

fun cf_keep :: "int set \<Rightarrow> 'a GraphNode list \<Rightarrow> 'a GraphNode list" where
  "cf_keep C [] = []"
| "cf_keep C (n # ns) =
     (if foldable C n then cf_keep (C \<union> set (outputs n)) ns else n # cf_keep C ns)"

fun cf_idx :: "int set \<Rightarrow> nat \<Rightarrow> 'a GraphNode list \<Rightarrow> nat list" where
  "cf_idx C i [] = []"
| "cf_idx C i (n # ns) =
     (if foldable C n then i # cf_idx (C \<union> set (outputs n)) (Suc i) ns
      else cf_idx C (Suc i) ns)"

lemma cf_scan_idx:
  "cf_scan i ns (C, R, f) = (C', R', f') \<Longrightarrow>
     R' = R @ cf_idx C i ns \<and> f' = f + int (length (cf_idx C i ns))"
proof (induction ns arbitrary: i C R f)
  case Nil
  then show ?case by simp
next
  case (Cons n ns)
  show ?case
  proof (cases "foldable C n")
    case True
    with Cons.prems
    have "cf_scan (Suc i) ns (C \<union> set (outputs n), R @ [i], f + 1) = (C', R', f')"
      by (simp add: foldable_def)
    from Cons.IH [OF this] True show ?thesis by simp
  next
    case False
    with Cons.prems have "cf_scan (Suc i) ns (C, R, f) = (C', R', f')"
      by (auto simp: foldable_def split: if_splits)
    from Cons.IH [OF this] False show ?thesis by simp
  qed
qed

lemma list_pop_append: "list_pop (length pre) (pre @ x # xs) = pre @ xs"
  by (simp add: list_pop_def)

lemma pop_all_append: "pop_all (xs @ ys) l = pop_all ys (pop_all xs l)"
  by (induction xs arbitrary: l) auto

lemma pop_all_cf_idx:
  "pop_all (rev (cf_idx C (length pre) ns)) (pre @ ns) = pre @ cf_keep C ns"
proof (induction ns arbitrary: C pre)
  case Nil
  then show ?case by simp
next
  case (Cons n ns)
  have step: "pop_all (rev (cf_idx D (Suc (length pre)) ns)) (pre @ n # ns)
                = pre @ n # cf_keep D ns" for D
    using Cons.IH [of D "pre @ [n]"] by simp
  show ?case
    by (simp add: step pop_all_append list_pop_append)
qed

lemma nodes_constant_folding:
  "nodes (snd (constant_folding self graph)) = cf_keep {} (nodes graph)"
proof -
  obtain C' R' f' where s: "cf_scan 0 (nodes graph) ({}, [], constants_folded (stats self)) = (C', R', f')"
    by (cases "cf_scan 0 (nodes graph) ({}, [], constants_folded (stats self))") auto
  from cf_scan_idx [OF s] have "R' = cf_idx {} 0 (nodes graph)" by simp
  with s pop_all_cf_idx [of "{}" "[]" "nodes graph"] show ?thesis
    by (simp add: constant_folding_def)
qed

lemma cf_keep_subseq: "subseq (cf_keep C ns) ns"
  by (induction ns arbitrary: C) auto

lemma cf_keep_no_empty:
  "n \<in> set (cf_keep C ns) \<Longrightarrow> \<not> (inputs n = [] \<and> op_type n \<in> {ADD, MUL})"
  by (induction ns arbitrary: C) (auto simp: foldable_def all_inputs_constant_def split: if_splits)

lemma constant_folding_frame:
  "tensors (snd (constant_folding self graph)) = tensors graph"
  "input_ids (snd (constant_folding self graph)) = input_ids graph"
  "output_ids (snd (constant_folding self graph)) = output_ids graph"
  "optimized (snd (constant_folding self graph)) = optimized graph"
  "optimization_level (fst (constant_folding self graph)) = optimization_level self"
  by (simp_all add: constant_folding_def split: prod.splits)

section \<open>Liveness\<close>

text \<open>
  Backward reachability from the declared outputs: an output is live, and so is every
  input of a node one of whose outputs is live. The worklist of
  \<^verbatim>\<open>_dead_code_elimination\<close> computes exactly this set (\<open>dce_reachable_live\<close>).
\<close>

inductive_set live :: "'a GraphNode list \<Rightarrow> int list \<Rightarrow> int set"
  for ns :: "'a GraphNode list" and outs :: "int list" where
  out: "t \<in> set outs \<Longrightarrow> t \<in> live ns outs"
| dep: "n \<in> set ns \<Longrightarrow> u \<in> set (outputs n) \<Longrightarrow> u \<in> live ns outs \<Longrightarrow> t \<in> set (inputs n)
        \<Longrightarrow> t \<in> live ns outs"

definition producers_inputs :: "int \<Rightarrow> 'a GraphNode list \<Rightarrow> int set" where
  "producers_inputs t ns = (\<Union>n \<in> {n \<in> set ns. t \<in> set (outputs n)}. set (inputs n))"

lemma mark_inputs_sets:
  "mark_inputs ins (r, w) = (r', w') \<Longrightarrow> r' = r \<union> set ins \<and> set w' = set w \<union> (set ins - r)"
proof (induction ins arbitrary: r w)
  case Nil
  then show ?case by simp
next
  case (Cons a ins)
  show ?case
  proof (cases "a \<in> r")
    case True
    with Cons.prems have "mark_inputs ins (r, w) = (r', w')" by simp
    from Cons.IH [OF this] True show ?thesis by auto
  next
    case False
    with Cons.prems have "mark_inputs ins (insert a r, w @ [a]) = (r', w')" by simp
    from Cons.IH [OF this] False show ?thesis by auto
  qed
qed

lemma visit_producers_sets:
  "visit_producers t ns (r, w) = (r', w') \<Longrightarrow>
     r' = r \<union> producers_inputs t ns \<and> set w' = set w \<union> (producers_inputs t ns - r)"
proof (induction ns arbitrary: r w)
  case Nil
  then show ?case by (simp add: producers_inputs_def)
next
  case (Cons n ns)
  show ?case
  proof (cases "t \<in> set (outputs n)")
    case False
    with Cons.prems have "visit_producers t ns (r, w) = (r', w')" by simp
    from Cons.IH [OF this] False show ?thesis by (auto simp: producers_inputs_def)
  next
    case True
    obtain r1 w1 where m: "mark_inputs (inputs n) (r, w) = (r1, w1)"
      by (cases "mark_inputs (inputs n) (r, w)")
    with True Cons.prems have v: "visit_producers t ns (r1, w1) = (r', w')" by simp
    have p: "producers_inputs t (n # ns) = set (inputs n) \<union> producers_inputs t ns"
      using True by (auto simp: producers_inputs_def)
    from mark_inputs_sets [OF m] Cons.IH [OF v] show ?thesis
      unfolding p by auto
  qed
qed

lemma producers_inputs_live:
  "t \<in> live ns outs \<Longrightarrow> producers_inputs t ns \<subseteq> live ns outs"
  by (auto simp: producers_inputs_def intro: live.dep)

lemma dce_worklist_live:
  assumes "set w \<subseteq> r" "r \<subseteq> live ns outs" "set outs \<subseteq> r"
    and "\<forall>u \<in> r - set w. producers_inputs u ns \<subseteq> r"
  shows "dce_worklist ns r w = live ns outs"
  using assms
proof (induction ns r w rule: dce_worklist.induct)
  case (1 ns r w)
  show ?case
  proof (cases "w = []")
    case True
    have "live ns outs \<subseteq> r"
    proof
      fix t assume "t \<in> live ns outs"
      then show "t \<in> r"
      proof (induction rule: live.induct)
        case (out t)
        with "1.prems"(3) show ?case by blast
      next
        case (dep n u t)
        with "1.prems"(4) True have "producers_inputs u ns \<subseteq> r" by simp
        with dep show ?case by (auto simp: producers_inputs_def)
      qed
    qed
    with "1.prems"(2) True show ?thesis by (simp add: dce_worklist.simps)
  next
    case False
    obtain r' w' where v: "visit_producers (last w) ns (r, butlast w) = (r', w')"
      by (cases "visit_producers (last w) ns (r, butlast w)")
    note s = visit_producers_sets [OF v]
    have w: "set w = insert (last w) (set (butlast w))"
      using False by (metis append_butlast_last_id list.set(1,2) set_append Un_insert_right sup_bot.right_neutral)
    have lw: "last w \<in> r" using "1.prems"(1) False by auto
    have a: "set w' \<subseteq> r'" using s "1.prems"(1) w by auto
    have b: "r' \<subseteq> live ns outs"
      using s "1.prems"(2) producers_inputs_live [of "last w" ns outs] lw by auto
    have c: "set outs \<subseteq> r'" using s "1.prems"(3) by auto
    have d: "\<forall>u \<in> r' - set w'. producers_inputs u ns \<subseteq> r'"
    proof
      fix u assume u: "u \<in> r' - set w'"
      with s have ur: "u \<in> r" and ub: "u \<notin> set (butlast w)" by auto
      show "producers_inputs u ns \<subseteq> r'"
      proof (cases "u = last w")
        case True
        with s show ?thesis by auto
      next
        case False
        with ub w have "u \<notin> set w" by auto
        with ur "1.prems"(4) have "producers_inputs u ns \<subseteq> r" by auto
        with s show ?thesis by auto
      qed
    qed
    have "dce_worklist ns r w = dce_worklist ns r' w'"
      using False v by (simp add: dce_worklist.simps [of ns r w])
    also have "\<dots> = live ns outs"
      using "1.IH" [OF False v [symmetric] a b c d] .
    finally show ?thesis .
  qed
qed

lemma dce_reachable_live:
  "dce_worklist ns (set outs) outs = live ns outs"
  by (rule dce_worklist_live) (auto intro: live.out)

definition has_live_output :: "'a GraphNode list \<Rightarrow> int list \<Rightarrow> 'a GraphNode \<Rightarrow> bool" where
  "has_live_output ns outs n = (\<exists>t \<in> set (outputs n). t \<in> live ns outs)"

lemma nodes_dead_code_elimination:
  "nodes (snd (dead_code_elimination self graph))
     = filter (has_live_output (nodes graph) (output_ids graph)) (nodes graph)"
proof -
  have "has_live_output (nodes graph) (output_ids graph)
          = (\<lambda>node. \<exists>out_id \<in> set (outputs node). out_id \<in> live (nodes graph) (output_ids graph))"
    by (rule ext) (simp add: has_live_output_def)
  then show ?thesis
    by (simp add: dead_code_elimination_def Let_def dce_reachable_live)
qed

lemma live_mono: "set ns \<subseteq> set ms \<Longrightarrow> live ns outs \<subseteq> live ms outs"
proof
  fix t assume s: "set ns \<subseteq> set ms" and "t \<in> live ns outs"
  from this(2) show "t \<in> live ms outs"
    by (induction rule: live.induct) (use s in \<open>auto intro: live.intros\<close>)
qed

lemma live_filter:
  "live (filter (has_live_output ns outs) ns) outs = live ns outs"
proof
  show "live (filter (has_live_output ns outs) ns) outs \<subseteq> live ns outs"
    by (rule live_mono) auto
  show "live ns outs \<subseteq> live (filter (has_live_output ns outs) ns) outs"
  proof
    fix t assume "t \<in> live ns outs"
    then show "t \<in> live (filter (has_live_output ns outs) ns) outs"
    proof (induction rule: live.induct)
      case (out t)
      then show ?case by (rule live.out)
    next
      case (dep n u t)
      then have "n \<in> set (filter (has_live_output ns outs) ns)"
        by (auto simp: has_live_output_def)
      from this dep(2) dep(5) dep(4) show ?case by (rule live.dep)
    qed
  qed
qed

lemma dead_code_elimination_frame:
  "tensors (snd (dead_code_elimination self graph)) = tensors graph"
  "input_ids (snd (dead_code_elimination self graph)) = input_ids graph"
  "output_ids (snd (dead_code_elimination self graph)) = output_ids graph"
  "optimized (snd (dead_code_elimination self graph)) = optimized graph"
  "optimization_level (fst (dead_code_elimination self graph)) = optimization_level self"
  by (simp_all add: dead_code_elimination_def Let_def)

section \<open>Frame lemmas of the passes\<close>

lemma operator_fusion_frame:
  "tensors (snd (operator_fusion self graph)) = tensors graph"
  "input_ids (snd (operator_fusion self graph)) = input_ids graph"
  "output_ids (snd (operator_fusion self graph)) = output_ids graph"
  "optimized (snd (operator_fusion self graph)) = optimized graph"
  "optimization_level (fst (operator_fusion self graph)) = optimization_level self"
  by (simp_all add: operator_fusion_def split: prod.splits)

lemma passes_level_1_frame:
  "tensors (snd (dead_code_elimination (fst (constant_folding s g)) (snd (constant_folding s g)))) = tensors g"
  "input_ids (snd (dead_code_elimination (fst (constant_folding s g)) (snd (constant_folding s g)))) = input_ids g"
  "output_ids (snd (dead_code_elimination (fst (constant_folding s g)) (snd (constant_folding s g)))) = output_ids g"
  by (simp_all add: dead_code_elimination_frame constant_folding_frame)


section \<open>Example graphs\<close>

definition sample_graph :: "int ComputationalGraph" where
  "sample_graph =
     ComputationalGraph_init
       [GraphNode_init 0 MATMUL ''fc1'' [0, 1] [2] Map.empty,
        GraphNode_init 1 RELU ''relu1'' [2] [3] Map.empty]
       Map.empty [0] [3]"


definition orphan_graph :: "int ComputationalGraph" where
  "orphan_graph =
     ComputationalGraph_init [GraphNode_init 0 ADD ''c'' [] [1] Map.empty] Map.empty [] [1]"


definition single_producer :: "'a GraphNode list \<Rightarrow> bool" where
  "single_producer ns =
     (\<forall>i < length ns. \<forall>j < length ns. i \<noteq> j \<longrightarrow>
        set (outputs (ns ! i)) \<inter> set (outputs (ns ! j)) = {})"

definition split_node :: "int GraphNode" where
  "split_node = GraphNode_init 0 SOFTMAX ''split'' [0] [1, 2] Map.empty"

definition two_output_graph :: "int ComputationalGraph" where
  "two_output_graph = ComputationalGraph_init [split_node] Map.empty [0] [1]"

lemma in_set_list_pop:
  "m \<in> set (list_pop i xs) \<Longrightarrow> i < length xs \<Longrightarrow> \<exists>j < length xs. j \<noteq> i \<and> m = xs ! j"
proof -
  assume m: "m \<in> set (list_pop i xs)" and i: "i < length xs"
  from m have "m \<in> set (take i xs) \<or> m \<in> set (drop (Suc i) xs)"
    by (auto simp: list_pop_def)
  then show ?thesis
  proof
    assume "m \<in> set (take i xs)"
    then obtain j where "j < i" "m = xs ! j" using i
      by (auto simp: in_set_conv_nth)
    with i show ?thesis by (intro exI [of _ j]) auto
  next
    assume "m \<in> set (drop (Suc i) xs)"
    then obtain k where "k < length xs - Suc i" "m = xs ! (Suc i + k)"
      by (auto simp: in_set_conv_nth)
    then show ?thesis by (intro exI [of _ "Suc i + k"]) auto
  qed
qed

lemma worklist_two_output: "dce_worklist [split_node] {1} [1] = {0, 1}"
  by (simp add: dce_worklist.simps split_node_def GraphNode_init_def insert_commute)

lemma live_two_output: "live [split_node] [1] = {0, 1}"
  using dce_reachable_live [of "[split_node]" "[1]"] worklist_two_output by simp

lemma dce_two_output_graph:
  "nodes (snd (dead_code_elimination self two_output_graph)) = [split_node]"
  by (simp add: nodes_dead_code_elimination two_output_graph_def ComputationalGraph_init_def
      has_live_output_def live_two_output)
    (simp add: split_node_def GraphNode_init_def)

section \<open>The fusion sweep as a function of the node list\<close>

text \<open>
  \<open>match_at\<close> is the test the loop of \<^verbatim>\<open>_operator_fusion\<close> makes on the nodes from
  position \<open>i\<close> on: the fused node and the number of nodes it replaces, in the order of the
  patterns. \<open>fuse_nodes\<close> is the list the loop leaves from position \<open>i\<close> on, and
  \<open>fuse_count\<close> what it adds to \<^verbatim>\<open>stats.ops_fused\<close> (lemma \<open>operator_fusion_loop_eq\<close>).
\<close>

fun match_at :: "'a GraphNode list \<Rightarrow> ('a GraphNode \<times> nat) option" where
  "match_at (node1 # node2 # rest) =
     (if op_type node1 = MATMUL \<and> op_type node2 = RELU \<and> can_fuse node1 node2
      then Some (fuse_matmul_activation node1 node2 FUSED_MATMUL_RELU, 2)
      else if op_type node1 = MATMUL \<and> op_type node2 = GELU \<and> can_fuse node1 node2
      then Some (fuse_matmul_activation node1 node2 FUSED_MATMUL_GELU, 2)
      else if op_type node1 = LAYERNORM \<and> op_type node2 \<in> {ATTENTION, MULTI_HEAD_ATTENTION}
              \<and> can_fuse node1 node2
      then Some (fuse_layernorm_attention node1 node2, 2)
      else if rest \<noteq> [] \<and> op_type node1 = CONV2D \<and> op_type node2 = BATCHNORM
              \<and> op_type (hd rest) = RELU \<and> can_fuse_triple node1 node2 (hd rest)
      then Some (fuse_conv_bn_relu node1 node2 (hd rest), 3)
      else None)"
| "match_at [node1] = None"
| "match_at [] = None"

lemma match_at_Some:
  "match_at xs = Some (f, k) \<Longrightarrow>
     (k = 2 \<or> k = 3) \<and> k \<le> length xs
     \<and> op_type f \<in> {FUSED_MATMUL_RELU, FUSED_MATMUL_GELU, FUSED_LAYERNORM_ATTENTION,
                     FUSED_CONV_BATCHNORM_RELU}"
  by (cases xs rule: match_at.cases)
    (auto simp: fuse_matmul_activation_def fuse_layernorm_attention_def fuse_conv_bn_relu_def
      GraphNode_init_def neq_Nil_conv split: if_splits)

function fuse_nodes :: "'a GraphNode list \<Rightarrow> 'a GraphNode list" where
  "fuse_nodes [] = []"
| "fuse_nodes (n # rest) =
     (case match_at (n # rest) of
        Some (f, k) \<Rightarrow> f # fuse_nodes (drop k (n # rest))
      | None \<Rightarrow> n # fuse_nodes rest)"
  by pat_completeness auto
termination
  by (relation "measure length") (auto dest!: match_at_Some)

function fuse_count :: "'a GraphNode list \<Rightarrow> int" where
  "fuse_count [] = 0"
| "fuse_count (n # rest) =
     (case match_at (n # rest) of
        Some (f, k) \<Rightarrow> int k - 1 + fuse_count (drop k (n # rest))
      | None \<Rightarrow> fuse_count rest)"
  by pat_completeness auto
termination
  by (relation "measure length") (auto dest!: match_at_Some)

declare fuse_nodes.simps(2) [simp del] fuse_count.simps(2) [simp del]

lemma match_at_head_not_producer:
  "op_type n \<notin> {MATMUL, LAYERNORM, CONV2D} \<Longrightarrow> match_at (n # rest) = None"
  by (cases rest) auto

lemma fuse_nodes_None: "match_at (n # rest) = None \<Longrightarrow> fuse_nodes (n # rest) = n # fuse_nodes rest"
  by (simp add: fuse_nodes.simps(2))

lemma fuse_count_None: "match_at (n # rest) = None \<Longrightarrow> fuse_count (n # rest) = fuse_count rest"
  by (simp add: fuse_count.simps(2))

lemma fuse_nodes_Some:
  "match_at (n # rest) = Some (f, k) \<Longrightarrow> fuse_nodes (n # rest) = f # fuse_nodes (drop k (n # rest))"
  by (simp add: fuse_nodes.simps(2))

lemma fuse_count_Some:
  "match_at (n # rest) = Some (f, k) \<Longrightarrow>
     fuse_count (n # rest) = int k - 1 + fuse_count (drop k (n # rest))"
  by (simp add: fuse_count.simps(2))

lemma fuse_nodes_fused_head:
  "match_at xs = Some (f, k) \<Longrightarrow> fuse_nodes (f # ys) = f # fuse_nodes ys"
  by (rule fuse_nodes_None, rule match_at_head_not_producer) (auto dest!: match_at_Some)

lemma fuse_count_fused_head:
  "match_at xs = Some (f, k) \<Longrightarrow> fuse_count (f # ys) = fuse_count ys"
  by (rule fuse_count_None, rule match_at_head_not_producer) (auto dest!: match_at_Some)


lemma drop_two:
  "Suc i < length ns \<Longrightarrow> drop i ns = ns ! i # ns ! Suc i # drop (Suc (Suc i)) ns"
  by (simp add: Cons_nth_drop_Suc)

lemma pop_after_update:
  "Suc i < length ns \<Longrightarrow> list_pop (Suc i) (ns[i := f]) = take i ns @ f # drop (Suc (Suc i)) ns"
  by (simp add: list_pop_def take_Suc_conv_app_nth)

lemma pop_pop_after_update:
  "Suc (Suc i) < length ns \<Longrightarrow>
     list_pop (Suc i) (list_pop (Suc (Suc i)) (ns[i := f]))
       = take i ns @ f # drop (Suc (Suc (Suc i))) ns"
proof -
  assume l: "Suc (Suc i) < length ns"
  have "list_pop (Suc (Suc i)) (ns[i := f])
          = take i ns @ f # ns ! Suc i # drop (Suc (Suc (Suc i))) ns"
    using l by (simp add: list_pop_def take_Suc_conv_app_nth)
  moreover have "list_pop (Suc i) (take i ns @ f # x # ys) = take i ns @ f # ys" for x ys
    using l by (simp add: list_pop_def)
  ultimately show ?thesis by simp
qed

lemma operator_fusion_loop_done:
  "\<not> Suc i < length ns \<Longrightarrow> operator_fusion_loop i ns fused = (ns, fused)"
  by (simp add: operator_fusion_loop.simps [of i ns fused])

lemma operator_fusion_loop_step:
  assumes "Suc i < length ns"
  shows "operator_fusion_loop i ns fused =
           (case match_at (drop i ns) of
              Some (f, k) \<Rightarrow>
                operator_fusion_loop i (take i ns @ f # drop (i + k) ns) (fused + (int k - 1))
            | None \<Rightarrow> operator_fusion_loop (Suc i) ns fused)"
proof -
  note d = drop_two [OF assms]
  have hd3: "Suc (Suc i) < length ns \<Longrightarrow> hd (drop (Suc (Suc i)) ns) = ns ! Suc (Suc i)"
    by (simp add: hd_drop_conv_nth)
  have ne: "drop (Suc (Suc i)) ns \<noteq> [] \<longleftrightarrow> Suc (Suc i) < length ns" by auto
  have n3: "i + 3 = Suc (Suc (Suc i))" and n2: "i + 2 = Suc (Suc i)" by simp_all
  show ?thesis
  proof (cases "Suc (Suc i) < length ns")
    case True
    with assms show ?thesis
      unfolding operator_fusion_loop.simps [of i ns fused] d match_at.simps Let_def
      by (auto simp: pop_after_update pop_pop_after_update hd3 ne n3 n2)
  next
    case False
    with assms show ?thesis
      unfolding operator_fusion_loop.simps [of i ns fused] d match_at.simps Let_def
      by (auto simp: pop_after_update n2)
  qed
qed


lemma operator_fusion_loop_eq:
  "operator_fusion_loop i ns fused
     = (take i ns @ fuse_nodes (drop i ns), fused + fuse_count (drop i ns))"
proof (induction "length ns - i" arbitrary: i ns fused rule: less_induct)
  case less
  show ?case
  proof (cases "Suc i < length ns")
    case False
    then have "length (drop i ns) \<le> 1" by simp
    then consider "drop i ns = []" | x where "drop i ns = [x]"
      by (cases "drop i ns"; cases "tl (drop i ns)") (auto simp del: length_drop)
    then show ?thesis
    proof cases
      case 1
      with False show ?thesis by (simp add: operator_fusion_loop_done)
    next
      case 2
      have "take i ns @ [x] = ns" using 2 by (metis append_take_drop_id)
      with 2 False show ?thesis
        by (simp add: operator_fusion_loop_done fuse_nodes_None fuse_count_None)
    qed
  next
    case True
    then have i: "i < length ns" by simp
    have d: "drop i ns = ns ! i # drop (Suc i) ns" using i by (simp add: Cons_nth_drop_Suc)
    show ?thesis
    proof (cases "match_at (drop i ns)")
      case None
      have "operator_fusion_loop i ns fused = operator_fusion_loop (Suc i) ns fused"
        using None by (simp add: operator_fusion_loop_step [OF True])
      also have "\<dots> = (take (Suc i) ns @ fuse_nodes (drop (Suc i) ns),
                        fused + fuse_count (drop (Suc i) ns))"
        using i by (intro less) simp
      also have "take (Suc i) ns @ fuse_nodes (drop (Suc i) ns)
                   = take i ns @ fuse_nodes (drop i ns)"
        using None i unfolding d by (simp add: fuse_nodes_None take_Suc_conv_app_nth)
      also have "fuse_count (drop (Suc i) ns) = fuse_count (drop i ns)"
        using None unfolding d by (simp add: fuse_count_None)
      finally show ?thesis .
    next
      case (Some p)
      obtain f k where p: "p = (f, k)" by (cases p)
      note m = Some [unfolded p]
      from match_at_Some [OF m] have k: "k = 2 \<or> k = 3" "i + k \<le> length ns" by auto
      let ?ns' = "take i ns @ f # drop (i + k) ns"
      have e1: "fuse_nodes (drop i ns) = f # fuse_nodes (drop k (drop i ns))"
        by (metis d fuse_nodes_Some m)
      have e2: "fuse_count (drop i ns) = int k - 1 + fuse_count (drop k (drop i ns))"
        by (metis d fuse_count_Some m)
      have t: "take i ?ns' = take i ns" and dr: "drop i ?ns' = f # drop (i + k) ns"
        using i by simp_all
      have "operator_fusion_loop i ns fused = operator_fusion_loop i ?ns' (fused + (int k - 1))"
        using m by (simp add: operator_fusion_loop_step [OF True])
      also have "\<dots> = (take i ?ns' @ fuse_nodes (drop i ?ns'),
                        fused + (int k - 1) + fuse_count (drop i ?ns'))"
        using i k by (intro less) auto
      also have "take i ?ns' @ fuse_nodes (drop i ?ns') = take i ns @ fuse_nodes (drop i ns)"
        unfolding t dr fuse_nodes_fused_head [OF m] e1 by (simp add: add.commute)
      also have "fused + (int k - 1) + fuse_count (drop i ?ns') = fused + fuse_count (drop i ns)"
        unfolding dr fuse_count_fused_head [OF m] e2 by (simp add: add.commute)
      finally show ?thesis .
    qed
  qed
qed

lemma nodes_operator_fusion:
  "nodes (snd (operator_fusion self graph)) = fuse_nodes (nodes graph)"
  by (simp add: operator_fusion_def operator_fusion_loop_eq)

lemma ops_fused_operator_fusion:
  "ops_fused (stats (fst (operator_fusion self graph)))
     = ops_fused (stats self) + fuse_count (nodes graph)"
  by (simp add: operator_fusion_def operator_fusion_loop_eq)


definition dce_nodes :: "'a GraphNode list \<Rightarrow> int list \<Rightarrow> 'a GraphNode list" where
  "dce_nodes ns outs = filter (has_live_output ns outs) ns"

lemma nodes_compile:
  "nodes (snd (compile start_time end_time self graph)) =
     (if optimization_level self \<ge> 2
      then fuse_nodes (dce_nodes (cf_keep {} (nodes graph)) (output_ids graph))
      else if optimization_level self \<ge> 1
      then dce_nodes (cf_keep {} (nodes graph)) (output_ids graph)
      else nodes graph)"
  by (simp add: compile_def Let_def split_beta layout_optimization_def
      kernel_fusion_experimental_def dce_nodes_def
      constant_folding_frame dead_code_elimination_frame operator_fusion_frame
      nodes_constant_folding nodes_dead_code_elimination nodes_operator_fusion)

lemma cf_keep_no_add_mul:
  "\<forall>n \<in> set ns. op_type n \<in> {ADD, MUL} \<longrightarrow> inputs n \<noteq> [] \<Longrightarrow> cf_keep {} ns = ns"
  by (induction ns) (auto simp: foldable_def all_inputs_constant_def)

lemma match_at_append:
  assumes "op_type n \<notin> {RELU, GELU, ATTENTION, MULTI_HEAD_ATTENTION, BATCHNORM}"
  shows "match_at (p # ps @ n # rest) = match_at (p # ps)"
proof (cases ps)
  case Nil
  with assms show ?thesis by auto
next
  case (Cons q qs)
  with assms show ?thesis by (cases qs) auto
qed

lemma fuse_nodes_append:
  assumes "op_type n \<notin> {RELU, GELU, ATTENTION, MULTI_HEAD_ATTENTION, BATCHNORM}"
  shows "fuse_nodes (pre @ n # rest) = fuse_nodes pre @ fuse_nodes (n # rest)"
proof (induction pre rule: fuse_nodes.induct)
  case 1
  show ?case by simp
next
  case (2 p ps)
  note a = match_at_append [OF assms, of p ps rest]
  show ?case
  proof (cases "match_at (p # ps)")
    case None
    with a have "match_at (p # ps @ n # rest) = None" by simp
    then have "fuse_nodes ((p # ps) @ n # rest) = p # fuse_nodes (ps @ n # rest)"
      by (simp add: fuse_nodes_None)
    with None 2(1) [OF None] show ?thesis by (simp add: fuse_nodes_None)
  next
    case (Some fk)
    obtain f k where fk: "fk = (f, k)" by (cases fk)
    note m = Some [unfolded fk]
    from match_at_Some [OF m] have k: "k \<le> length (p # ps)" by simp
    from a m have "match_at (p # ps @ n # rest) = Some (f, k)" by simp
    then have "fuse_nodes ((p # ps) @ n # rest) = f # fuse_nodes (drop k ((p # ps) @ n # rest))"
      using fuse_nodes_Some [of p "ps @ n # rest" f k] by simp
    also have "drop k ((p # ps) @ n # rest) = drop k (p # ps) @ n # rest"
      using k by (simp only: drop_append) simp
    also have "fuse_nodes (drop k (p # ps) @ n # rest)
                 = fuse_nodes (drop k (p # ps)) @ fuse_nodes (n # rest)"
      using 2(2) [OF m refl] .
    finally show ?thesis by (simp add: fuse_nodes_Some [OF m])
  qed
qed

text \<open>
  The fan-out of a tensor in the sense of the specification: the number of node inputs, in
  the whole node list, that name it. The source never computes it.
\<close>

definition fan_out :: "int \<Rightarrow> 'a GraphNode list \<Rightarrow> nat" where
  "fan_out t ns = length (filter (\<lambda>inp_id. inp_id = t) (concat (map inputs ns)))"

text \<open>
  The candidate chains of the four patterns, by the kinds of their nodes, and the test
  \<^verbatim>\<open>_can_fuse\<close> or \<^verbatim>\<open>_can_fuse_triple\<close> that the sweep applies to a candidate.
\<close>

fun fusion_candidate :: "'a GraphNode list \<Rightarrow> bool" where
  "fusion_candidate [node1, node2] =
     (op_type node1 = MATMUL \<and> op_type node2 \<in> {RELU, GELU}
      \<or> op_type node1 = LAYERNORM \<and> op_type node2 \<in> {ATTENTION, MULTI_HEAD_ATTENTION})"
| "fusion_candidate [node1, node2, node3] =
     (op_type node1 = CONV2D \<and> op_type node2 = BATCHNORM \<and> op_type node3 = RELU)"
| "fusion_candidate chain = False"

fun local_check :: "'a GraphNode list \<Rightarrow> bool" where
  "local_check [node1, node2] = can_fuse node1 node2"
| "local_check [node1, node2, node3] = can_fuse_triple node1 node2 node3"
| "local_check chain = False"

definition fanout_graph :: "int ComputationalGraph" where
  "fanout_graph =
     ComputationalGraph_init
       [GraphNode_init 0 MATMUL ''fc'' [0, 1] [2] Map.empty,
        GraphNode_init 1 RELU ''act'' [2] [3] Map.empty,
        GraphNode_init 2 SILU ''side'' [2] [4] Map.empty]
       Map.empty [0, 1] [3, 4]"

lemma fanout_graph_compile:
  "nodes (snd (compile 0 1 (ModelCompiler_init 2) fanout_graph))
     = [GraphNode_init 0 FUSED_MATMUL_RELU ''fused_fc_act'' [0, 1] [3] Map.empty,
        GraphNode_init 2 SILU ''side'' [2] [4] Map.empty]"
  by (simp add: compile_def ModelCompiler_init_def fanout_graph_def ComputationalGraph_init_def
      GraphNode_init_def constant_folding_def all_inputs_constant_def
      dead_code_elimination_def dce_worklist.simps operator_fusion_def
      operator_fusion_loop.simps can_fuse_def can_fuse_triple_def list_pop_def
      fuse_matmul_activation_def layout_optimization_def Let_def)


lemma fuse_nodes_not_producer:
  "op_type n \<notin> {MATMUL, LAYERNORM, CONV2D} \<Longrightarrow> fuse_nodes (n # rest) = n # fuse_nodes rest"
  by (rule fuse_nodes_None) (rule match_at_head_not_producer)

lemma fuse_nodes_chain_kept:
  assumes "fusion_candidate chain" and "\<not> local_check chain"
  shows "fuse_nodes (chain @ post) = chain @ fuse_nodes post"
  using assms
proof (induction chain rule: fusion_candidate.induct)
  case (1 node1 node2)
  then have "match_at (node1 # node2 # post) = None" by auto
  moreover have "fuse_nodes (node2 # post) = node2 # fuse_nodes post"
    using 1 by (intro fuse_nodes_not_producer) auto
  ultimately show ?case by (simp add: fuse_nodes_None)
next
  case (2 node1 node2 node3)
  then have "match_at (node1 # node2 # node3 # post) = None" by auto
  moreover have "fuse_nodes (node2 # node3 # post) = node2 # fuse_nodes (node3 # post)"
    using 2 by (intro fuse_nodes_not_producer) auto
  moreover have "fuse_nodes (node3 # post) = node3 # fuse_nodes post"
    using 2 by (intro fuse_nodes_not_producer) auto
  ultimately show ?case by (simp add: fuse_nodes_None)
qed simp_all

lemma fuse_nodes_chain_fused:
  assumes "fusion_candidate chain" and "local_check chain"
  shows "\<exists>f k. match_at chain = Some (f, k) \<and> k = length chain
               \<and> inputs f = inputs (hd chain) \<and> outputs f = outputs (last chain)
               \<and> fuse_nodes (chain @ post) = f # fuse_nodes post"
  using assms
proof (induction chain rule: fusion_candidate.induct)
  case (1 node1 node2)
  then obtain f where m: "match_at [node1, node2] = Some (f, 2)"
    by (auto split: if_splits)
  then have m': "match_at (node1 # node2 # post) = Some (f, 2)"
    using 1 by (auto split: if_splits)
  have "inputs f = inputs node1 \<and> outputs f = outputs node2"
    using m by (auto simp: fuse_matmul_activation_def fuse_layernorm_attention_def
        GraphNode_init_def split: if_splits)
  with m fuse_nodes_Some [OF m'] show ?case by simp
next
  case (2 node1 node2 node3)
  let ?f = "fuse_conv_bn_relu node1 node2 node3"
  have m: "match_at [node1, node2, node3] = Some (?f, 3)"
    and m': "match_at (node1 # node2 # node3 # post) = Some (?f, 3)"
    using 2 by auto
  have "inputs ?f = inputs node1 \<and> outputs ?f = outputs node3"
    by (simp add: fuse_conv_bn_relu_def GraphNode_init_def)
  with m fuse_nodes_Some [OF m'] show ?case by simp
qed simp_all

lemma fusion_candidate_head:
  "fusion_candidate chain \<Longrightarrow>
     \<exists>n ns. chain = n # ns
       \<and> op_type n \<notin> {RELU, GELU, ATTENTION, MULTI_HEAD_ATTENTION, BATCHNORM}"
  by (induction chain rule: fusion_candidate.induct) auto

definition wide_matmul :: "int GraphNode" where
  "wide_matmul = GraphNode_init 0 MATMUL ''fc'' [0, 1] [2, 5] Map.empty"

definition act_node :: "int GraphNode" where
  "act_node = GraphNode_init 1 RELU ''act'' [2] [3] Map.empty"

lemma fuse_nodes_at_match:
  assumes "match_at (n # ns @ post) = Some (f, Suc (length ns))"
    and "op_type n \<notin> {RELU, GELU, ATTENTION, MULTI_HEAD_ATTENTION, BATCHNORM}"
  shows "fuse_nodes (pre @ (n # ns) @ post) = fuse_nodes pre @ [f] @ fuse_nodes post"
proof -
  have "fuse_nodes (pre @ (n # ns) @ post) = fuse_nodes pre @ fuse_nodes (n # ns @ post)"
    using fuse_nodes_append [OF assms(2), of pre "ns @ post"] by simp
  also have "fuse_nodes (n # ns @ post) = f # fuse_nodes post"
    using fuse_nodes_Some [OF assms(1)] by simp
  finally show ?thesis by simp
qed

definition attr_matmul :: "int GraphNode" where
  "attr_matmul = GraphNode_init 0 MATMUL ''fc'' [0, 1] [2] [''transpose_b'' \<mapsto> 1]"

definition attr_gelu :: "int GraphNode" where
  "attr_gelu = GraphNode_init 1 GELU ''act'' [2] [3] [''approximate'' \<mapsto> 1]"

definition gelu_graph :: "int ComputationalGraph" where
  "gelu_graph = ComputationalGraph_init [attr_matmul, attr_gelu] Map.empty [0, 1] [3]"

lemma gelu_graph_fusion:
  "nodes (snd (operator_fusion (ModelCompiler_init 2) gelu_graph))
     = [fuse_matmul_activation attr_matmul attr_gelu FUSED_MATMUL_GELU]"
  by (simp add: operator_fusion_def gelu_graph_def ComputationalGraph_init_def
      operator_fusion_loop.simps can_fuse_def list_pop_def attr_matmul_def attr_gelu_def
      GraphNode_init_def)

lemma str_int_examples: "str_int 2 = ''2''" "str_int 12 = ''12''" "str_int (- 7) = ''-7''"
  by code_simp+

definition ln_node :: "int GraphNode" where
  "ln_node = GraphNode_init 2 LAYERNORM ''ln1'' [3] [4] [''eps'' \<mapsto> 1]"

definition attn_node :: "int GraphNode" where
  "attn_node = GraphNode_init 3 MULTI_HEAD_ATTENTION ''attn1'' [4] [5] [''num_heads'' \<mapsto> 8]"

definition conv_node :: "int GraphNode" where
  "conv_node = GraphNode_init 12 CONV2D ''conv1'' [0] [1] [''stride'' \<mapsto> 2]"

definition bn_node :: "int GraphNode" where
  "bn_node = GraphNode_init 13 BATCHNORM ''bn1'' [1] [2] [''eps'' \<mapsto> 5]"

lemma all_inputs_constant_list:
  "all_inputs_constant constant_tensors node
     = list_all (\<lambda>inp_id. inp_id \<in> constant_tensors) (inputs node)"
  by (simp add: all_inputs_constant_def list_all_iff)

lemma cf_idx_no_add_mul:
  "\<forall>n \<in> set ns. op_type n \<in> {ADD, MUL} \<longrightarrow> inputs n \<noteq> [] \<Longrightarrow> cf_idx {} i ns = []"
  by (induction ns arbitrary: i) (auto simp: foldable_def all_inputs_constant_def)

lemma snd_constant_folding:
  "snd (constant_folding self graph) = graph\<lparr>nodes := cf_keep {} (nodes graph)\<rparr>"
proof -
  have "snd (constant_folding self graph)
          = graph\<lparr>nodes := nodes (snd (constant_folding self graph))\<rparr>"
    by (simp add: constant_folding_def split: prod.splits)
  then show ?thesis by (simp only: nodes_constant_folding)
qed

lemma constants_folded_constant_folding:
  "constants_folded (stats (fst (constant_folding self graph)))
     = constants_folded (stats self) + int (length (cf_idx {} 0 (nodes graph)))"
proof -
  obtain C R f where s: "cf_scan 0 (nodes graph) ({}, [], constants_folded (stats self)) = (C, R, f)"
    by (cases "cf_scan 0 (nodes graph) ({}, [], constants_folded (stats self))") auto
  from cf_scan_idx [OF s] s show ?thesis by (simp add: constant_folding_def)
qed

definition literal_graph :: "int ComputationalGraph" where
  "literal_graph =
     ComputationalGraph_init
       [GraphNode_init 0 ADD ''x'' [0, 1] [2] Map.empty,
        GraphNode_init 1 MATMUL ''y'' [2, 3] [4] Map.empty]
       Map.empty [3] [4]"

definition literal_nodes_graph :: "int ComputationalGraph" where
  "literal_nodes_graph =
     ComputationalGraph_init
       [GraphNode_init 10 MUL ''lit1'' [] [0] [''value'' \<mapsto> 2],
        GraphNode_init 11 MUL ''lit2'' [] [1] [''value'' \<mapsto> 3],
        GraphNode_init 0 ADD ''x'' [0, 1] [2] Map.empty,
        GraphNode_init 1 MATMUL ''y'' [2, 3] [4] Map.empty]
       Map.empty [3] [4]"

lemma literal_graph_compile:
  "nodes (snd (compile 0 1 (ModelCompiler_init 1) literal_graph))
     = [GraphNode_init 0 ADD ''x'' [0, 1] [2] Map.empty,
        GraphNode_init 1 MATMUL ''y'' [2, 3] [4] Map.empty]"
  by (simp add: compile_def ModelCompiler_init_def literal_graph_def ComputationalGraph_init_def
      GraphNode_init_def constant_folding_def all_inputs_constant_list
      dead_code_elimination_def dce_worklist.simps Let_def)

lemma literal_nodes_graph_compile:
  "nodes (snd (compile 0 1 (ModelCompiler_init 1) literal_nodes_graph))
     = [GraphNode_init 1 MATMUL ''y'' [2, 3] [4] Map.empty]"
  by (simp add: compile_def ModelCompiler_init_def literal_nodes_graph_def
      ComputationalGraph_init_def
      GraphNode_init_def constant_folding_def all_inputs_constant_list list_pop_def
      dead_code_elimination_def dce_worklist.simps Let_def)

text \<open>
  What the profiling loop does to one node, and the simulated times of the nodes whose
  kind has a given name, in the order of the node list.
\<close>

definition set_time :: "'a GraphNode \<Rightarrow> 'a GraphNode" where
  "set_time node = node\<lparr>execution_time_ms := simulated_time (op_type node)\<rparr>"

definition times_of :: "string \<Rightarrow> 'a GraphNode list \<Rightarrow> real list" where
  "times_of nm ns =
     map (\<lambda>n. simulated_time (op_type n)) (filter (\<lambda>n. OpType_name (op_type n) = nm) ns)"

lemma OpType_name_inj: "OpType_name k = OpType_name k' \<longleftrightarrow> k = k'"
  by (cases k; cases k') simp_all

lemma fused_name:
  "str_contains ''FUSED'' (OpType_name k)
     \<longleftrightarrow> k \<in> {FUSED_MATMUL_RELU, FUSED_MATMUL_GELU, FUSED_CONV_BATCHNORM_RELU,
               FUSED_LAYERNORM_ATTENTION}"
  by (cases k) simp_all

lemma profile_nodes_eq:
  "profile_nodes ns (op_times, total_time) =
     (map set_time ns,
      (\<lambda>nm. if times_of nm ns = [] then op_times nm
            else Some ((case op_times nm of None \<Rightarrow> [] | Some ts \<Rightarrow> ts) @ times_of nm ns)),
      foldl fl_add total_time (map (\<lambda>n. simulated_time (op_type n)) ns))"
proof (induction ns arbitrary: op_times total_time)
  case Nil
  show ?case by (simp add: times_of_def)
next
  case (Cons n ns)
  let ?nm = "OpType_name (op_type n)"
  let ?t = "simulated_time (op_type n)"
  let ?ot = "op_times(?nm \<mapsto> (case op_times ?nm of None \<Rightarrow> [] | Some ts \<Rightarrow> ts) @ [?t])"
  have step: "profile_nodes (n # ns) (op_times, total_time) =
      (case profile_nodes ns (?ot, fl_add total_time ?t) of
         (rest', op_times', total_time') \<Rightarrow> (set_time n # rest', op_times', total_time'))"
    by (cases "op_times ?nm") (simp_all add: Let_def set_time_def)
  have m: "(\<lambda>nm. if times_of nm ns = [] then ?ot nm
            else Some ((case ?ot nm of None \<Rightarrow> [] | Some ts \<Rightarrow> ts) @ times_of nm ns))
         = (\<lambda>nm. if times_of nm (n # ns) = [] then op_times nm
            else Some ((case op_times nm of None \<Rightarrow> [] | Some ts \<Rightarrow> ts) @ times_of nm (n # ns)))"
    by (rule ext) (auto simp: times_of_def)
  show ?case
    unfolding step Cons.IH m by simp
qed

lemma times_of_kind:
  "times_of (OpType_name k) ns
     = replicate (length (filter (\<lambda>n. op_type n = k) ns)) (simulated_time k)"
  by (induction ns) (auto simp: times_of_def OpType_name_inj)


lemma profile_graph_eq:
  "profile_graph graph =
     (graph\<lparr>nodes := map set_time (nodes graph)\<rparr>,
      \<lparr>total_execution_time_ms = fl_sum (map (\<lambda>n. simulated_time (op_type n)) (nodes graph)),
       total_memory_mb = 0,
       num_operations = int (length (nodes graph)),
       op_breakdown =
         map_option (op_stats_of (fl_sum (map (\<lambda>n. simulated_time (op_type n)) (nodes graph))))
           \<circ> (\<lambda>nm. if times_of nm (nodes graph) = [] then None
                     else Some (times_of nm (nodes graph)))\<rparr>)"
  by (simp add: profile_graph_def profile_nodes_eq fl_sum_def cong: if_cong)

lemma simulated_time_cases:
  "simulated_time k =
     (if k \<in> {MATMUL, CONV2D} then 5
      else if k \<in> {FUSED_MATMUL_RELU, FUSED_MATMUL_GELU, FUSED_CONV_BATCHNORM_RELU,
                    FUSED_LAYERNORM_ATTENTION} then 7 / 2
      else 1 / 2)"
  unfolding simulated_time_def fused_name by simp

lemma sample_graph_compile:
  "ops_fused (stats self) = k \<Longrightarrow> optimization_level self = 2 \<Longrightarrow>
   ops_fused (stats (fst (compile t0 t1 self sample_graph))) = k + 1
   \<and> original_ops (stats (fst (compile t0 t1 self sample_graph))) = 2
   \<and> optimized_ops (stats (fst (compile t0 t1 self sample_graph))) = 1
   \<and> optimization_level (fst (compile t0 t1 self sample_graph)) = 2"
  by (simp add: compile_def sample_graph_def ComputationalGraph_init_def
      GraphNode_init_def constant_folding_def all_inputs_constant_list
      dead_code_elimination_def dce_worklist.simps operator_fusion_def
      operator_fusion_loop.simps can_fuse_def list_pop_def
      fuse_matmul_activation_def layout_optimization_def Let_def)

definition source_node :: "int GraphNode" where
  "source_node = GraphNode_init 0 MATMUL ''a'' [0] [1] Map.empty"

definition branch_node :: "int GraphNode" where
  "branch_node = GraphNode_init 1 SOFTMAX ''b'' [1] [2, 3] Map.empty"

definition dead_node :: "int GraphNode" where
  "dead_node = GraphNode_init 2 SILU ''dead'' [1] [9] Map.empty"

definition sink_node :: "int GraphNode" where
  "sink_node = GraphNode_init 3 RELU ''c'' [2] [4] Map.empty"

definition branch_graph :: "int ComputationalGraph" where
  "branch_graph =
     ComputationalGraph_init [source_node, branch_node, dead_node, sink_node] Map.empty [0] [4]"

lemma worklist_branch_graph:
  "dce_worklist [source_node, branch_node, dead_node, sink_node] {4} [4] = {0, 1, 2, 4}"
  by (simp add: dce_worklist.simps source_node_def branch_node_def dead_node_def sink_node_def
      GraphNode_init_def insert_commute)

lemma live_branch_graph:
  "live [source_node, branch_node, dead_node, sink_node] [4] = {0, 1, 2, 4}"
  using dce_reachable_live [of "[source_node, branch_node, dead_node, sink_node]" "[4]"]
    worklist_branch_graph by simp

text \<open>
  The positions recorded by the sweep: they lie in the range of the list, increase, and
  position \<open>i\<close> is recorded exactly when the node there is an Add or Multiply node
  each of whose inputs is a constant tensor at that moment, that is, a tensor of the
  initial set or an output of a node recorded earlier.
\<close>

lemma cf_idx_range: "j \<in> set (cf_idx C k ns) \<Longrightarrow> k \<le> j \<and> j < k + length ns"
proof (induction ns arbitrary: C k)
  case Nil
  then show ?case by simp
next
  case (Cons n ns)
  show ?case
  proof (cases "foldable C n")
    case True
    with Cons.prems have "j = k \<or> j \<in> set (cf_idx (C \<union> set (outputs n)) (Suc k) ns)" by simp
    then show ?thesis using Cons.IH [of "C \<union> set (outputs n)" "Suc k"] by auto
  next
    case False
    with Cons.prems have "j \<in> set (cf_idx C (Suc k) ns)" by simp
    then show ?thesis using Cons.IH [of C "Suc k"] by auto
  qed
qed

lemma cf_idx_distinct: "distinct (cf_idx C k ns)"
proof (induction ns arbitrary: C k)
  case Nil
  then show ?case by simp
next
  case (Cons n ns)
  have "k \<notin> set (cf_idx D (Suc k) ns)" for D
    using cf_idx_range [of k D "Suc k" ns] by auto
  with Cons.IH show ?case by simp
qed

lemma cf_keep_nths: "cf_keep C ns = nths ns {i. k + i \<notin> set (cf_idx C k ns)}"
proof (induction ns arbitrary: C k)
  case Nil
  then show ?case by simp
next
  case (Cons n ns)
  have nk: "k \<notin> set (cf_idx D (Suc k) ns)" for D
    using cf_idx_range [of k D "Suc k" ns] by auto
  show ?case
  proof (cases "foldable C n")
    case True
    then show ?thesis
      using Cons.IH [of "C \<union> set (outputs n)" "Suc k"] by (simp add: nths_Cons)
  next
    case False
    then show ?thesis
      using Cons.IH [of C "Suc k"] nk [of C] by (simp add: nths_Cons)
  qed
qed

lemma cf_idx_member:
  "i < length ns \<Longrightarrow>
     k + i \<in> set (cf_idx C k ns) \<longleftrightarrow>
       op_type (ns ! i) \<in> {ADD, MUL}
       \<and> (\<forall>t \<in> set (inputs (ns ! i)).
            t \<in> C \<or> (\<exists>j < i. k + j \<in> set (cf_idx C k ns) \<and> t \<in> set (outputs (ns ! j))))"
proof (induction ns arbitrary: C k i)
  case Nil
  then show ?case by simp
next
  case (Cons n ns)
  have nk: "k \<notin> set (cf_idx D (Suc k) ns)" for D
    using cf_idx_range [of k D "Suc k" ns] by auto
  define C' where "C' = (if foldable C n then C \<union> set (outputs n) else C)"
  have tl: "k + Suc j \<in> set (cf_idx C k (n # ns)) \<longleftrightarrow> Suc k + j \<in> set (cf_idx C' (Suc k) ns)"
    for j
    by (simp add: C'_def)
  have hd: "k \<in> set (cf_idx C k (n # ns)) \<longleftrightarrow> foldable C n"
    using nk by simp
  show ?case
  proof (cases i)
    case 0
    then show ?thesis
      using hd by (simp add: foldable_def all_inputs_constant_def) blast
  next
    case (Suc i')
    with Cons.prems have i': "i' < length ns" by simp
    have ex: "(\<exists>j < Suc i'. k + j \<in> set (cf_idx C k (n # ns)) \<and> t \<in> set (outputs ((n # ns) ! j)))
        \<longleftrightarrow> (foldable C n \<and> t \<in> set (outputs n))
            \<or> (\<exists>j < i'. Suc k + j \<in> set (cf_idx C' (Suc k) ns) \<and> t \<in> set (outputs (ns ! j)))"
      for t
    proof
      assume "\<exists>j < Suc i'. k + j \<in> set (cf_idx C k (n # ns)) \<and> t \<in> set (outputs ((n # ns) ! j))"
      then obtain j where j: "j < Suc i'" "k + j \<in> set (cf_idx C k (n # ns))"
        "t \<in> set (outputs ((n # ns) ! j))" by blast
      show "(foldable C n \<and> t \<in> set (outputs n))
            \<or> (\<exists>j < i'. Suc k + j \<in> set (cf_idx C' (Suc k) ns) \<and> t \<in> set (outputs (ns ! j)))"
      proof (cases j)
        case 0
        with j hd show ?thesis by simp
      next
        case (Suc j')
        with j tl [of j'] have "j' < i'" "Suc k + j' \<in> set (cf_idx C' (Suc k) ns)"
          "t \<in> set (outputs (ns ! j'))" by simp_all
        then show ?thesis by blast
      qed
    next
      assume "(foldable C n \<and> t \<in> set (outputs n))
            \<or> (\<exists>j < i'. Suc k + j \<in> set (cf_idx C' (Suc k) ns) \<and> t \<in> set (outputs (ns ! j)))"
      then show "\<exists>j < Suc i'. k + j \<in> set (cf_idx C k (n # ns))
                   \<and> t \<in> set (outputs ((n # ns) ! j))"
      proof
        assume "foldable C n \<and> t \<in> set (outputs n)"
        with hd have "0 < Suc i' \<and> k + 0 \<in> set (cf_idx C k (n # ns))
                   \<and> t \<in> set (outputs ((n # ns) ! 0))" by simp
        then show ?thesis by blast
      next
        assume "\<exists>j < i'. Suc k + j \<in> set (cf_idx C' (Suc k) ns) \<and> t \<in> set (outputs (ns ! j))"
        then obtain j where "j < i'" "Suc k + j \<in> set (cf_idx C' (Suc k) ns)"
          "t \<in> set (outputs (ns ! j))" by blast
        with tl [of j] have "Suc j < Suc i' \<and> k + Suc j \<in> set (cf_idx C k (n # ns))
                   \<and> t \<in> set (outputs ((n # ns) ! Suc j))" by simp
        then show ?thesis by blast
      qed
    qed
    have c': "t \<in> C' \<longleftrightarrow> t \<in> C \<or> (foldable C n \<and> t \<in> set (outputs n))" for t
      by (simp add: C'_def)
    from Cons.IH [OF i', of "Suc k" C'] tl [of i']
    show ?thesis
      unfolding Suc nth_Cons_Suc ex c' by blast
  qed
qed

text \<open>
  Evaluating the rounding: a number whose magnitude, scaled by \<open>2^k\<close>, lies in
  \<open>[2^52, 2^53)\<close> is rounded at that scale; a number \<open>m / 2^j\<close> with
  \<open>\<bar>m\<bar> < 2^53\<close> is representable, so rounding leaves it as it is; and the
  sums of at most \<open>2^49\<close> simulated times, all multiples of one half, are exact.
\<close>

lemma round_even_of_int: "round_even (of_int z) = z"
  by (simp add: round_even_def)

lemma fl_round_scaled:
  fixes k :: nat
  assumes lo: "2 ^ 52 \<le> \<bar>x\<bar> * 2 ^ k" and hi: "\<bar>x\<bar> * 2 ^ k < 2 ^ 53"
  shows "fl_round x = of_int (round_even (x * 2 ^ k)) / 2 ^ k"
proof -
  from lo have x0: "x \<noteq> 0" by auto
  then have ax: "0 < \<bar>x\<bar>" by simp
  have p: "2 powr (of_int (52 - int k)) = 2 ^ 52 / (2 ^ k :: real)"
    by (simp add: powr_diff powr_realpow flip: powr_realpow)
  have p1: "2 powr (of_int (52 - int k) + 1) = 2 ^ 53 / (2 ^ k :: real)"
    by (simp add: powr_diff powr_add powr_realpow)
  have lo': "2 ^ 52 / 2 ^ k \<le> \<bar>x\<bar>" using lo by (simp add: field_simps)
  have hi': "\<bar>x\<bar> < 2 ^ 53 / 2 ^ k" using hi by (simp add: field_simps)
  have "2 powr (of_int (52 - int k)) \<le> \<bar>x\<bar>"
    unfolding p by (rule lo')
  then have "of_int (52 - int k) \<le> log 2 \<bar>x\<bar>"
    using ax by (subst le_log_iff) simp_all
  moreover have "\<bar>x\<bar> < 2 powr (of_int (52 - int k) + 1)"
    unfolding p1 by (rule hi')
  then have "log 2 \<bar>x\<bar> < of_int (52 - int k) + 1"
    using ax by (subst log_less_iff) simp_all
  ultimately have fl: "\<lfloor>log 2 \<bar>x\<bar>\<rfloor> = 52 - int k"
    by (rule floor_unique)
  have e: "2 powr (of_int (- int k)) = 1 / (2 ^ k :: real)"
    by (simp add: powr_minus powr_realpow field_simps)
  show ?thesis
    using x0 by (simp add: fl_round_def fl Let_def e del: of_int_minus)
qed


lemma normalise_int:
  fixes m :: int
  assumes "0 < m" "m < 2 ^ 53"
  shows "\<exists>n :: nat. 2 ^ 52 \<le> m * 2 ^ n \<and> m * 2 ^ n < 2 ^ 53"
  using assms
proof (induction "nat (2 ^ 53 - m)" arbitrary: m rule: less_induct)
  case less
  show ?case
  proof (cases "2 ^ 52 \<le> m")
    case True
    with less.prems have "2 ^ 52 \<le> m * 2 ^ 0 \<and> m * 2 ^ 0 < 2 ^ 53" by simp
    then show ?thesis by blast
  next
    case False
    with less.prems have "nat (2 ^ 53 - 2 * m) < nat (2 ^ 53 - m)" "0 < 2 * m" "2 * m < 2 ^ 53"
      by simp_all
    from less.hyps [OF this] obtain n :: nat where
      "2 ^ 52 \<le> 2 * m * 2 ^ n \<and> 2 * m * 2 ^ n < 2 ^ 53" by blast
    then have "2 ^ 52 \<le> m * 2 ^ Suc n \<and> m * 2 ^ Suc n < 2 ^ 53" by (simp add: mult_ac)
    then show ?thesis by blast
  qed
qed

lemma fl_round_exact:
  fixes m :: int and j :: nat
  assumes "\<bar>m\<bar> < 2 ^ 53"
  shows "fl_round (of_int m / 2 ^ j) = of_int m / 2 ^ j"
proof (cases "m = 0")
  case True
  then show ?thesis by (simp add: fl_round_def)
next
  case False
  with assms have "0 < \<bar>m\<bar>" "\<bar>m\<bar> < 2 ^ 53" by simp_all
  from normalise_int [OF this] obtain n :: nat where
    n: "2 ^ 52 \<le> \<bar>m\<bar> * 2 ^ n" "\<bar>m\<bar> * 2 ^ n < 2 ^ 53" by blast
  let ?x = "real_of_int m / 2 ^ j"
  have s: "\<bar>?x\<bar> * 2 ^ (n + j) = of_int (\<bar>m\<bar> * 2 ^ n)"
    by (simp add: power_add abs_divide)
  have s': "?x * 2 ^ (n + j) = of_int (m * 2 ^ n)"
    by (simp add: power_add)
  from n(1) have "real_of_int (2 ^ 52) \<le> real_of_int (\<bar>m\<bar> * 2 ^ n)"
    by (simp only: of_int_le_iff)
  then have b1: "2 ^ 52 \<le> \<bar>?x\<bar> * 2 ^ (n + j)"
    unfolding s by simp
  from n(2) have "real_of_int (\<bar>m\<bar> * 2 ^ n) < real_of_int (2 ^ 53)"
    by (simp only: of_int_less_iff)
  then have b2: "\<bar>?x\<bar> * 2 ^ (n + j) < 2 ^ 53"
    unfolding s by simp
  have "fl_round ?x = of_int (round_even (?x * 2 ^ (n + j))) / 2 ^ (n + j)"
    using b1 b2 by (rule fl_round_scaled)
  also have "\<dots> = of_int (m * 2 ^ n) / 2 ^ (n + j)"
    unfolding s' round_even_of_int ..
  also have "\<dots> = ?x"
    by (simp add: power_add)
  finally show ?thesis .
qed

lemma fl_sum_exact:
  fixes m :: int
  assumes "\<forall>t \<in> set ts. t \<in> {5, 7 / 2, 1 / 2 :: real}"
    and "acc = of_int m / 2" and "0 \<le> m" and "m + 10 * int (length ts) < 2 ^ 53"
  shows "foldl fl_add acc ts = acc + sum_list ts"
  using assms
proof (induction ts arbitrary: acc m)
  case Nil
  then show ?case by simp
next
  case (Cons t ts)
  from Cons.prems(1) obtain d :: int where d: "t = of_int d / 2" "0 \<le> d" "d \<le> 10"
  proof -
    from Cons.prems(1) have "t = 5 \<or> t = 7 / 2 \<or> t = 1 / 2" by simp
    then have "t = of_int 10 / 2 \<or> t = of_int 7 / 2 \<or> t = of_int 1 / 2" by simp
    then show ?thesis using that by fastforce
  qed
  have a: "acc + t = of_int (m + d) / 2 ^ 1"
    by (simp add: Cons.prems(2) d add_divide_distrib)
  have "\<bar>m + d\<bar> < 2 ^ 53" using Cons.prems(3,4) d by simp
  from fl_round_exact [OF this, of 1] have e: "fl_add acc t = of_int (m + d) / 2"
    unfolding fl_add_def a by simp
  have "foldl fl_add (fl_add acc t) ts = fl_add acc t + sum_list ts"
  proof (rule Cons.IH [of _ "m + d"])
    show "\<forall>t \<in> set ts. t \<in> {5, 7 / 2, 1 / 2 :: real}" using Cons.prems(1) by simp
    show "fl_add acc t = of_int (m + d) / 2" by (rule e)
    show "0 \<le> m + d" using Cons.prems(3) d by simp
    show "m + d + 10 * int (length ts) < 2 ^ 53" using Cons.prems(4) d by simp
  qed
  moreover have "fl_add acc t = acc + t" unfolding e a by simp
  ultimately show ?case by simp
qed


lemma simulated_time_range: "simulated_time k \<in> {5, 7 / 2, 1 / 2}"
  by (simp add: simulated_time_cases)

lemma simulated_time_pos: "0 < simulated_time k"
  using simulated_time_range [of k] by auto

lemma fl_sum_times:
  assumes "\<forall>t \<in> set ts. t \<in> {5, 7 / 2, 1 / 2 :: real}" and "length ts \<le> 2 ^ 49"
  shows "fl_sum ts = sum_list ts"
proof -
  from assms(2) have "int (length ts) \<le> int (2 ^ 49)"
    by (simp only: of_nat_le_iff)
  then have "0 + 10 * int (length ts) < 2 ^ 53" by simp
  from fl_sum_exact [OF assms(1) _ _ this, of 0] show ?thesis
    by (simp add: fl_sum_def)
qed

lemma fl_div_times:
  assumes "t \<in> {5, 7 / 2, 1 / 2 :: real}" and "0 < c"
  shows "fl_div (real c * t) (real c) = t"
proof -
  from assms(1) have "t = of_int 10 / 2 ^ 1 \<or> t = of_int 7 / 2 ^ 1 \<or> t = of_int 1 / 2 ^ 1"
    by auto
  then obtain d :: int where d: "t = of_int d / 2 ^ 1" "\<bar>d\<bar> < 2 ^ 53"
    by fastforce
  from assms(2) have "real c * t / real c = t" by simp
  then have "fl_div (real c * t) (real c) = fl_round t" by (simp only: fl_div_def)
  also have "\<dots> = t" unfolding d(1) using d(2) by (rule fl_round_exact)
  finally show ?thesis .
qed

lemma sum_times_pos:
  "ns \<noteq> [] \<Longrightarrow> 0 < sum_list (map (\<lambda>n. simulated_time (op_type n)) ns)"
proof (induction ns)
  case Nil
  then show ?case by simp
next
  case (Cons n ns)
  have "0 \<le> sum_list (map (\<lambda>n. simulated_time (op_type n)) ns)"
    by (rule sum_list_nonneg) (auto intro: less_imp_le simulated_time_pos)
  with simulated_time_pos [of "op_type n"] show ?case by simp
qed

lemma dom_profile_graph:
  "dom (op_breakdown (snd (profile_graph graph))) = OpType_name ` op_type ` set (nodes graph)"
proof -
  have "times_of nm ns \<noteq> [] \<longleftrightarrow> nm \<in> OpType_name ` op_type ` set ns"
    for nm and ns :: "'a GraphNode list"
    by (auto simp: times_of_def filter_empty_conv)
  then show ?thesis
    by (auto simp: profile_graph_eq dom_def split: if_splits)
qed

section \<open>The claims\<close>

text \<open>
  C9. For every graph and every optimization level, \<^verbatim>\<open>compile\<close> leaves the tensor
  table, the list of graph input ids and the list of graph output ids as they were, and the
  returned graph has its \<open>optimized\<close> flag set; only the node list may change.
\<close>

theorem compile_frame:
  "tensors (snd (compile start_time end_time self graph)) = tensors graph
   \<and> input_ids (snd (compile start_time end_time self graph)) = input_ids graph
   \<and> output_ids (snd (compile start_time end_time self graph)) = output_ids graph
   \<and> optimized (snd (compile start_time end_time self graph)) = True"
  by (simp add: compile_def Let_def layout_optimization_def kernel_fusion_experimental_def
      split: prod.splits)
    (auto simp: constant_folding_frame dead_code_elimination_frame operator_fusion_frame
      dest!: arg_cong [where f = snd])


theorem compile_frame_witness:
  "tensors (snd (compile 0 1 (ModelCompiler_init 2) sample_graph)) = Map.empty
   \<and> input_ids (snd (compile 0 1 (ModelCompiler_init 2) sample_graph)) = [0]
   \<and> output_ids (snd (compile 0 1 (ModelCompiler_init 2) sample_graph)) = [3]
   \<and> optimized (snd (compile 0 1 (ModelCompiler_init 2) sample_graph)) = True"
  using compile_frame [of 0 1 "ModelCompiler_init 2" sample_graph]
  by (simp add: sample_graph_def ComputationalGraph_init_def)

text \<open>
  C10. In the constant-folding pass a node with an empty input list and kind Add or
  Multiply is deleted and nothing is put in its place: the node list after the pass is a
  subsequence of the one before, it does not contain the node, the declared outputs are
  unchanged, and an output of the node that no other node produced has no producer left.
\<close>

theorem folding_deletes_node_without_inputs:
  "n \<in> set (nodes graph) \<Longrightarrow> inputs n = [] \<Longrightarrow> op_type n \<in> {ADD, MUL} \<Longrightarrow>
     n \<notin> set (nodes (snd (constant_folding self graph)))
     \<and> subseq (nodes (snd (constant_folding self graph))) (nodes graph)
     \<and> output_ids (snd (constant_folding self graph)) = output_ids graph
     \<and> (\<forall>t \<in> set (outputs n).
          (\<forall>m \<in> set (nodes graph). t \<in> set (outputs m) \<longrightarrow> m = n) \<longrightarrow>
          \<not> (\<exists>m \<in> set (nodes (snd (constant_folding self graph))). t \<in> set (outputs m)))"
proof -
  assume n: "n \<in> set (nodes graph)" "inputs n = []" "op_type n \<in> {ADD, MUL}"
  let ?ks = "nodes (snd (constant_folding self graph))"
  have ks: "?ks = cf_keep {} (nodes graph)" by (rule nodes_constant_folding)
  have a: "n \<notin> set ?ks" using n cf_keep_no_empty [of n "{}" "nodes graph"] ks by auto
  have b: "subseq ?ks (nodes graph)" unfolding ks by (rule cf_keep_subseq)
  have sub: "set ?ks \<subseteq> set (nodes graph)"
    using b by (auto dest: list_emb_set)
  have c: "\<forall>t \<in> set (outputs n).
          (\<forall>m \<in> set (nodes graph). t \<in> set (outputs m) \<longrightarrow> m = n) \<longrightarrow>
          \<not> (\<exists>m \<in> set ?ks. t \<in> set (outputs m))"
    using a sub by blast
  have d: "output_ids (snd (constant_folding self graph)) = output_ids graph"
    by (rule constant_folding_frame)
  from a b d c show ?thesis by (intro conjI)
qed

theorem folding_deletes_node_without_inputs_witness:
  "nodes orphan_graph = [GraphNode_init 0 ADD ''c'' [] [1] Map.empty]
   \<and> nodes (snd (constant_folding (ModelCompiler_init 1) orphan_graph)) = []
   \<and> output_ids (snd (constant_folding (ModelCompiler_init 1) orphan_graph)) = [1]"
  using folding_deletes_node_without_inputs
    [of "GraphNode_init 0 ADD ''c'' [] [1] Map.empty" orphan_graph "ModelCompiler_init 1"]
  by (simp add: orphan_graph_def ComputationalGraph_init_def GraphNode_init_def
      constant_folding_def all_inputs_constant_def list_pop_def)

text \<open>
  C3, as stated, fails: the pass keeps a node as soon as one of its outputs is live, so a
  kept node can have an output that is not live. The graph has one node with the outputs
  1 and 2 and declares the output 1; the node stays, and tensor 2 is not live.
\<close>

theorem dce_all_outputs_live_counterexample:
  "nodes (snd (dead_code_elimination (ModelCompiler_init 1) two_output_graph)) = [split_node]
   \<and> 2 \<in> set (outputs split_node)
   \<and> 2 \<notin> live (nodes (snd (dead_code_elimination (ModelCompiler_init 1) two_output_graph)))
              (output_ids (snd (dead_code_elimination (ModelCompiler_init 1) two_output_graph)))"
proof -
  have "output_ids two_output_graph = [1]"
    by (simp add: two_output_graph_def ComputationalGraph_init_def)
  moreover have "2 \<in> set (outputs split_node)"
    by (simp add: split_node_def GraphNode_init_def)
  ultimately show ?thesis
    by (simp add: dce_two_output_graph dead_code_elimination_frame live_two_output)
qed

text \<open>
  C3, amended. The pass keeps, in their order, exactly the nodes that have at least one
  output that is backward-reachable from the declared outputs. After it the declared
  outputs are unchanged and the live set of the remaining graph is that of the graph
  before; every remaining node has at least one live output, and every removed node had
  none. When no tensor is produced by two of the remaining nodes, every remaining node is
  the only producer of one of its live outputs: removing it leaves a live tensor without a
  producer.
\<close>

theorem dce_keeps_nodes_with_a_live_output:
  "(let kept = nodes (snd (dead_code_elimination self graph));
        outs = output_ids (snd (dead_code_elimination self graph))
    in outs = output_ids graph
       \<and> kept = filter (\<lambda>n. \<exists>t \<in> set (outputs n). t \<in> live (nodes graph) (output_ids graph))
                   (nodes graph)
       \<and> live kept outs = live (nodes graph) (output_ids graph)
       \<and> (\<forall>n \<in> set kept. \<exists>t \<in> set (outputs n). t \<in> live kept outs)
       \<and> (\<forall>n \<in> set (nodes graph). n \<notin> set kept \<longrightarrow>
             (\<forall>t \<in> set (outputs n). t \<notin> live (nodes graph) (output_ids graph)))
       \<and> (single_producer kept \<longrightarrow>
             (\<forall>i < length kept. \<exists>t \<in> set (outputs (kept ! i)).
                t \<in> live kept outs \<and> (\<forall>m \<in> set (list_pop i kept). t \<notin> set (outputs m)))))"
proof -
  let ?ns = "nodes graph" and ?outs = "output_ids graph"
  let ?kept = "filter (has_live_output ?ns ?outs) ?ns"
  have k: "nodes (snd (dead_code_elimination self graph)) = ?kept"
    by (rule nodes_dead_code_elimination)
  have o: "output_ids (snd (dead_code_elimination self graph)) = ?outs"
    by (rule dead_code_elimination_frame)
  have f: "?kept = filter (\<lambda>n. \<exists>t \<in> set (outputs n). t \<in> live ?ns ?outs) ?ns"
    by (simp add: has_live_output_def [abs_def])
  have l: "live ?kept ?outs = live ?ns ?outs" by (rule live_filter)
  have a: "\<forall>n \<in> set ?kept. \<exists>t \<in> set (outputs n). t \<in> live ?kept ?outs"
    unfolding l by (auto simp: has_live_output_def)
  have b: "\<forall>n \<in> set ?ns. n \<notin> set ?kept \<longrightarrow> (\<forall>t \<in> set (outputs n). t \<notin> live ?ns ?outs)"
    by (auto simp: has_live_output_def)
  have c: "single_producer ?kept \<longrightarrow>
             (\<forall>i < length ?kept. \<exists>t \<in> set (outputs (?kept ! i)).
                t \<in> live ?kept ?outs \<and> (\<forall>m \<in> set (list_pop i ?kept). t \<notin> set (outputs m)))"
  proof (intro impI allI)
    fix i assume sp: "single_producer ?kept" and i: "i < length ?kept"
    from i have "?kept ! i \<in> set ?kept" by (rule nth_mem)
    with a obtain t where t: "t \<in> set (outputs (?kept ! i))" "t \<in> live ?kept ?outs"
      by blast
    have "\<forall>m \<in> set (list_pop i ?kept). t \<notin> set (outputs m)"
    proof
      fix m assume "m \<in> set (list_pop i ?kept)"
      from in_set_list_pop [OF this i] obtain j where
        j: "j < length ?kept" "j \<noteq> i" "m = ?kept ! j" by blast
      with sp i have "set (outputs (?kept ! i)) \<inter> set (outputs (?kept ! j)) = {}"
        unfolding single_producer_def by blast
      with t j show "t \<notin> set (outputs m)" by blast
    qed
    with t show "\<exists>t \<in> set (outputs (?kept ! i)).
                t \<in> live ?kept ?outs \<and> (\<forall>m \<in> set (list_pop i ?kept). t \<notin> set (outputs m))"
      by blast
  qed
  show ?thesis
    unfolding Let_def k o using f l a b c by (intro conjI) (rule refl)
qed

theorem dce_keeps_nodes_with_a_live_output_witness:
  "nodes branch_graph = [source_node, branch_node, dead_node, sink_node]
   \<and> nodes (snd (dead_code_elimination (ModelCompiler_init 1) branch_graph))
       = [source_node, branch_node, sink_node]
   \<and> 9 \<in> set (outputs dead_node)
   \<and> 9 \<notin> live (nodes branch_graph) (output_ids branch_graph)
   \<and> single_producer [source_node, branch_node, sink_node]
   \<and> list_pop 1 [source_node, branch_node, sink_node] = [source_node, sink_node]
   \<and> (\<exists>t \<in> set (outputs branch_node).
         t \<in> live [source_node, branch_node, sink_node] (output_ids branch_graph)
         \<and> (\<forall>m \<in> set [source_node, sink_node]. t \<notin> set (outputs m)))"
proof -
  let ?g = "snd (dead_code_elimination (ModelCompiler_init 1) branch_graph)"
  let ?kept = "[source_node, branch_node, sink_node]"
  note t = dce_keeps_nodes_with_a_live_output [of "ModelCompiler_init 1" branch_graph,
      unfolded Let_def]
  have ns: "nodes branch_graph = [source_node, branch_node, dead_node, sink_node]"
    and outs: "output_ids branch_graph = [4]"
    by (simp_all add: branch_graph_def ComputationalGraph_init_def)
  have o: "outputs source_node = [1]" "outputs branch_node = [2, 3]"
    "outputs dead_node = [9]" "outputs sink_node = [4]"
    by (simp_all add: source_node_def branch_node_def dead_node_def sink_node_def
        GraphNode_init_def)
  from t have "nodes ?g = filter (\<lambda>n. \<exists>t \<in> set (outputs n).
                   t \<in> live (nodes branch_graph) (output_ids branch_graph)) (nodes branch_graph)"
    by (elim conjE)
  then have k: "nodes ?g = ?kept"
    by (simp add: ns outs live_branch_graph o)
  have d: "dead_node \<in> set (nodes branch_graph)" "dead_node \<notin> set (nodes ?g)"
    by (simp_all add: ns k)
      (simp_all add: source_node_def branch_node_def dead_node_def sink_node_def
        GraphNode_init_def)
  from t have "\<forall>n \<in> set (nodes branch_graph). n \<notin> set (nodes ?g) \<longrightarrow>
             (\<forall>t \<in> set (outputs n). t \<notin> live (nodes branch_graph) (output_ids branch_graph))"
    by (elim conjE)
  with d have dead: "9 \<notin> live (nodes branch_graph) (output_ids branch_graph)"
    by (auto simp: o)
  have sp: "single_producer ?kept"
    by (auto simp: single_producer_def o less_Suc_eq nth_Cons')
  from t have "single_producer (nodes ?g) \<longrightarrow>
          (\<forall>i < length (nodes ?g). \<exists>t \<in> set (outputs (nodes ?g ! i)).
             t \<in> live (nodes ?g) (output_ids ?g)
             \<and> (\<forall>m \<in> set (list_pop i (nodes ?g)). t \<notin> set (outputs m)))"
    by (elim conjE)
  with sp have "\<forall>i < length ?kept. \<exists>t \<in> set (outputs (?kept ! i)).
             t \<in> live ?kept (output_ids ?g)
             \<and> (\<forall>m \<in> set (list_pop i ?kept). t \<notin> set (outputs m))"
    unfolding k by (rule rev_mp)
  then have "1 < length ?kept \<longrightarrow> (\<exists>t \<in> set (outputs (?kept ! 1)).
             t \<in> live ?kept (output_ids ?g)
             \<and> (\<forall>m \<in> set (list_pop 1 ?kept). t \<notin> set (outputs m)))"
    by (rule spec)
  then have "\<exists>t \<in> set (outputs (?kept ! 1)).
             t \<in> live ?kept (output_ids ?g)
             \<and> (\<forall>m \<in> set (list_pop 1 ?kept). t \<notin> set (outputs m))"
    by simp
  moreover have lp: "list_pop 1 ?kept = [source_node, sink_node]"
    by (simp add: list_pop_def)
  moreover have "output_ids ?g = output_ids branch_graph"
    by (rule dead_code_elimination_frame)
  ultimately have m: "\<exists>t \<in> set (outputs branch_node).
         t \<in> live ?kept (output_ids branch_graph)
         \<and> (\<forall>m \<in> set [source_node, sink_node]. t \<notin> set (outputs m))"
    by simp
  have "9 \<in> set (outputs dead_node)" by (simp add: o)
  with ns k dead sp lp m show ?thesis by (intro conjI)
qed

text \<open>
  C4. Scenario 1: for the two-node graph with a MatMul node reading \<open>a\<close>, \<open>b\<close> and
  writing \<open>c\<close>, followed by a ReLU node reading \<open>c\<close> and writing \<open>d\<close>, with the declared
  output \<open>d\<close>, compiling at level 2 leaves exactly one node, of kind
  \<open>FUSED_MATMUL_RELU\<close>, with the inputs \<open>[a, b]\<close> and the outputs \<open>[d]\<close>.
\<close>

theorem scenario_1_fusion:
  assumes "optimization_level self = 2"
    and "nodes graph = [matmul, relu]" and "output_ids graph = [d]"
    and "op_type matmul = MATMUL" and "inputs matmul = [a, b]" and "outputs matmul = [c]"
    and "op_type relu = RELU" and "inputs relu = [c]" and "outputs relu = [d]"
  shows "\<exists>n. nodes (snd (compile start_time end_time self graph)) = [n]
           \<and> op_type n = FUSED_MATMUL_RELU \<and> inputs n = [a, b] \<and> outputs n = [d]"
proof -
  let ?ns = "[matmul, relu]"
  have cf: "cf_keep {} ?ns = ?ns"
    using assms by (intro cf_keep_no_add_mul) auto
  have d: "d \<in> live ?ns [d]" by (rule live.out) simp
  have c: "c \<in> live ?ns [d]"
    by (rule live.dep [of relu _ d]) (use assms d in auto)
  have dce: "dce_nodes ?ns [d] = ?ns"
    using assms c d by (simp add: dce_nodes_def has_live_output_def)
  have m: "match_at ?ns = Some (fuse_matmul_activation matmul relu FUSED_MATMUL_RELU, 2)"
    using assms by (simp add: can_fuse_def)
  have "fuse_nodes ?ns = [fuse_matmul_activation matmul relu FUSED_MATMUL_RELU]"
    by (simp add: fuse_nodes_Some [OF m])
  with assms cf dce
  have "nodes (snd (compile start_time end_time self graph))
          = [fuse_matmul_activation matmul relu FUSED_MATMUL_RELU]"
    by (simp add: nodes_compile)
  moreover have "op_type (fuse_matmul_activation matmul relu FUSED_MATMUL_RELU) = FUSED_MATMUL_RELU"
    "inputs (fuse_matmul_activation matmul relu FUSED_MATMUL_RELU) = [a, b]"
    "outputs (fuse_matmul_activation matmul relu FUSED_MATMUL_RELU) = [d]"
    using assms by (simp_all add: fuse_matmul_activation_def GraphNode_init_def)
  ultimately show ?thesis by blast
qed

theorem scenario_1_fusion_witness:
  "\<exists>n. nodes (snd (compile 0 1 (ModelCompiler_init 2) sample_graph)) = [n]
        \<and> op_type n = FUSED_MATMUL_RELU \<and> inputs n = [0, 1] \<and> outputs n = [3]"
  by (rule scenario_1_fusion
        [of "ModelCompiler_init 2" sample_graph
            "GraphNode_init 0 MATMUL ''fc1'' [0, 1] [2] Map.empty"
            "GraphNode_init 1 RELU ''relu1'' [2] [3] Map.empty" 3 0 1 2 0 1])
    (simp_all add: ModelCompiler_init_def sample_graph_def ComputationalGraph_init_def
      GraphNode_init_def)

text \<open>
  C1, as stated, fails: \<^verbatim>\<open>_can_fuse\<close> looks at the two nodes only. In the graph below
  tensor 2, written by the MatMul node, is read by the ReLU node and by a SiLU node
  (fan-out 2); compiling at level 2 fuses MatMul and ReLU all the same, and the SiLU node
  that stays reads a tensor that no node produces any more.
\<close>

theorem fan_out_fusion_counterexample:
  "fan_out 2 (nodes fanout_graph) = 2
   \<and> nodes (snd (compile 0 1 (ModelCompiler_init 2) fanout_graph))
       = [GraphNode_init 0 FUSED_MATMUL_RELU ''fused_fc_act'' [0, 1] [3] Map.empty,
          GraphNode_init 2 SILU ''side'' [2] [4] Map.empty]"
  by (simp add: fanout_graph_compile)
    (simp add: fan_out_def fanout_graph_def ComputationalGraph_init_def GraphNode_init_def)

text \<open>
  C1, amended. The fusion pass, which \<^verbatim>\<open>compile\<close> runs at level 2 and above, decides on
  the nodes of the chain alone. For a candidate chain (MatMul+ReLU, MatMul+GELU,
  LayerNorm+Attention or MultiHeadAttention, Conv2D+BatchNorm+ReLU) standing anywhere in
  the node list: when the local test fails (a producer of the chain does not have exactly
  one output, its consumer does not have exactly one input, or the two differ), the chain
  is not fused and its nodes all remain, between the results of the pass on the nodes
  before and after it; when the local test holds, the chain is replaced by one fused
  node, whatever else reads the intermediate tensors.
\<close>

theorem fusion_decided_by_local_check:
  assumes "fusion_candidate chain"
  shows "(\<not> local_check chain \<longrightarrow>
            nodes (snd (operator_fusion self (graph\<lparr>nodes := pre @ chain @ post\<rparr>)))
              = nodes (snd (operator_fusion self (graph\<lparr>nodes := pre\<rparr>))) @ chain
                @ nodes (snd (operator_fusion self (graph\<lparr>nodes := post\<rparr>))))
         \<and> (local_check chain \<longrightarrow>
              (\<exists>f. inputs f = inputs (hd chain) \<and> outputs f = outputs (last chain)
                 \<and> op_type f \<in> {FUSED_MATMUL_RELU, FUSED_MATMUL_GELU,
                                 FUSED_LAYERNORM_ATTENTION, FUSED_CONV_BATCHNORM_RELU}
                 \<and> nodes (snd (operator_fusion self (graph\<lparr>nodes := pre @ chain @ post\<rparr>)))
                     = nodes (snd (operator_fusion self (graph\<lparr>nodes := pre\<rparr>))) @ [f]
                       @ nodes (snd (operator_fusion self (graph\<lparr>nodes := post\<rparr>)))))"
proof -
  from fusion_candidate_head [OF assms] obtain n ns where
    c: "chain = n # ns" "op_type n \<notin> {RELU, GELU, ATTENTION, MULTI_HEAD_ATTENTION, BATCHNORM}"
    by blast
  have split: "fuse_nodes (pre @ chain @ post) = fuse_nodes pre @ fuse_nodes (chain @ post)"
    using fuse_nodes_append [OF c(2), of pre "ns @ post"] c(1) by simp
  have a: "\<not> local_check chain \<longrightarrow>
             fuse_nodes (pre @ chain @ post) = fuse_nodes pre @ chain @ fuse_nodes post"
    using fuse_nodes_chain_kept [OF assms, of post] split by simp
  have b: "local_check chain \<longrightarrow>
             (\<exists>f. inputs f = inputs (hd chain) \<and> outputs f = outputs (last chain)
                 \<and> op_type f \<in> {FUSED_MATMUL_RELU, FUSED_MATMUL_GELU,
                                 FUSED_LAYERNORM_ATTENTION, FUSED_CONV_BATCHNORM_RELU}
                 \<and> fuse_nodes (pre @ chain @ post) = fuse_nodes pre @ [f] @ fuse_nodes post)"
  proof
    assume "local_check chain"
    from fuse_nodes_chain_fused [OF assms this, of post] obtain f k where
      f: "match_at chain = Some (f, k)" "inputs f = inputs (hd chain)"
         "outputs f = outputs (last chain)" "fuse_nodes (chain @ post) = f # fuse_nodes post"
      by blast
    from match_at_Some [OF f(1)] f(2-4) split
    show "\<exists>f. inputs f = inputs (hd chain) \<and> outputs f = outputs (last chain)
                 \<and> op_type f \<in> {FUSED_MATMUL_RELU, FUSED_MATMUL_GELU,
                                 FUSED_LAYERNORM_ATTENTION, FUSED_CONV_BATCHNORM_RELU}
                 \<and> fuse_nodes (pre @ chain @ post) = fuse_nodes pre @ [f] @ fuse_nodes post"
      by (intro exI [of _ f]) simp
  qed
  have n: "nodes (graph\<lparr>nodes := xs\<rparr>) = xs" for xs by simp
  from a b show ?thesis unfolding nodes_operator_fusion n by (rule conjI)
qed


theorem fusion_decided_by_local_check_witness:
  "fusion_candidate [wide_matmul, act_node] \<and> \<not> local_check [wide_matmul, act_node]
   \<and> nodes (snd (operator_fusion (ModelCompiler_init 2)
                  (fanout_graph\<lparr>nodes := [wide_matmul, act_node]\<rparr>)))
       = [wide_matmul, act_node]"
proof -
  have c: "fusion_candidate [wide_matmul, act_node]"
    by (simp add: wide_matmul_def act_node_def GraphNode_init_def)
  have l: "\<not> local_check [wide_matmul, act_node]"
    by (simp add: wide_matmul_def act_node_def GraphNode_init_def can_fuse_def)
  have e: "nodes (snd (operator_fusion (ModelCompiler_init 2) (fanout_graph\<lparr>nodes := []\<rparr>))) = []"
    by (simp add: nodes_operator_fusion)
  from fusion_decided_by_local_check
         [OF c, where self = "ModelCompiler_init 2" and graph = fanout_graph
            and pre = "[]" and post = "[]"] l
  have "nodes (snd (operator_fusion (ModelCompiler_init 2)
                  (fanout_graph\<lparr>nodes := [] @ [wide_matmul, act_node] @ []\<rparr>)))
          = nodes (snd (operator_fusion (ModelCompiler_init 2) (fanout_graph\<lparr>nodes := []\<rparr>)))
            @ [wide_matmul, act_node]
            @ nodes (snd (operator_fusion (ModelCompiler_init 2) (fanout_graph\<lparr>nodes := []\<rparr>)))"
    by blast
  then have "nodes (snd (operator_fusion (ModelCompiler_init 2)
                  (fanout_graph\<lparr>nodes := [wide_matmul, act_node]\<rparr>)))
       = [wide_matmul, act_node]"
    unfolding e by simp
  with c l show ?thesis by (intro conjI)
qed

text \<open>
  C5, as stated, fails for the attributes: \<^verbatim>\<open>_fuse_matmul_activation\<close> gives the fused
  node the attributes of the MatMul node only. A GELU node with the attribute
  \<open>approximate\<close> is fused with a MatMul node; the fused node has no such attribute, the
  union of the two attribute dicts has.
\<close>

theorem fused_attributes_counterexample:
  "nodes (snd (operator_fusion (ModelCompiler_init 2) gelu_graph))
     = [fuse_matmul_activation attr_matmul attr_gelu FUSED_MATMUL_GELU]
   \<and> attributes (fuse_matmul_activation attr_matmul attr_gelu FUSED_MATMUL_GELU)
        ''approximate'' = None
   \<and> (attributes attr_matmul ++ attributes attr_gelu) ''approximate'' = Some 1"
  by (simp add: gelu_graph_fusion)
    (simp add: fuse_matmul_activation_def attr_matmul_def attr_gelu_def GraphNode_init_def)

text \<open>
  C5, amended. Whenever the fusion pass matches a chain, wherever it stands in the node
  list, the chain is replaced by one node with the id and the inputs of the chain's first
  node, the outputs of its last node and the fused kind, and the other nodes of the chain
  are deleted. Its attributes are those of the MatMul node for MatMul+ReLU and
  MatMul+GELU, those of the LayerNorm node overridden by those of the attention node for
  LayerNorm+Attention, and those of the Conv2D node overridden by those of the BatchNorm
  node for Conv2D+BatchNorm+ReLU: the attributes of a ReLU or GELU node are not carried
  over.
\<close>

theorem fused_node_construction:
  "(op_type m1 = MATMUL \<and> op_type a1 = RELU \<and> can_fuse m1 a1 \<longrightarrow>
      nodes (snd (operator_fusion self (graph\<lparr>nodes := pre @ [m1, a1] @ post\<rparr>)))
        = nodes (snd (operator_fusion self (graph\<lparr>nodes := pre\<rparr>)))
          @ [\<lparr>node_id = node_id m1, op_type = FUSED_MATMUL_RELU,
               name = ''fused_'' @ name m1 @ ''_'' @ name a1,
               inputs = inputs m1, outputs = outputs a1, attributes = attributes m1,
               execution_time_ms = 0, memory_usage_mb = 0\<rparr>]
          @ nodes (snd (operator_fusion self (graph\<lparr>nodes := post\<rparr>))))
   \<and> (op_type m2 = MATMUL \<and> op_type a2 = GELU \<and> can_fuse m2 a2 \<longrightarrow>
      nodes (snd (operator_fusion self (graph\<lparr>nodes := pre @ [m2, a2] @ post\<rparr>)))
        = nodes (snd (operator_fusion self (graph\<lparr>nodes := pre\<rparr>)))
          @ [\<lparr>node_id = node_id m2, op_type = FUSED_MATMUL_GELU,
               name = ''fused_'' @ name m2 @ ''_'' @ name a2,
               inputs = inputs m2, outputs = outputs a2, attributes = attributes m2,
               execution_time_ms = 0, memory_usage_mb = 0\<rparr>]
          @ nodes (snd (operator_fusion self (graph\<lparr>nodes := post\<rparr>))))
   \<and> (op_type lnorm = LAYERNORM \<and> op_type attn \<in> {ATTENTION, MULTI_HEAD_ATTENTION}
        \<and> can_fuse lnorm attn \<longrightarrow>
      nodes (snd (operator_fusion self (graph\<lparr>nodes := pre @ [lnorm, attn] @ post\<rparr>)))
        = nodes (snd (operator_fusion self (graph\<lparr>nodes := pre\<rparr>)))
          @ [\<lparr>node_id = node_id lnorm, op_type = FUSED_LAYERNORM_ATTENTION,
               name = ''fused_ln_attn_'' @ str_int (node_id lnorm),
               inputs = inputs lnorm, outputs = outputs attn,
               attributes = attributes lnorm ++ attributes attn,
               execution_time_ms = 0, memory_usage_mb = 0\<rparr>]
          @ nodes (snd (operator_fusion self (graph\<lparr>nodes := post\<rparr>))))
   \<and> (op_type cv = CONV2D \<and> op_type bn = BATCHNORM \<and> op_type rl = RELU
        \<and> can_fuse_triple cv bn rl \<longrightarrow>
      nodes (snd (operator_fusion self (graph\<lparr>nodes := pre @ [cv, bn, rl] @ post\<rparr>)))
        = nodes (snd (operator_fusion self (graph\<lparr>nodes := pre\<rparr>)))
          @ [\<lparr>node_id = node_id cv, op_type = FUSED_CONV_BATCHNORM_RELU,
               name = ''fused_conv_bn_relu_'' @ str_int (node_id cv),
               inputs = inputs cv, outputs = outputs rl,
               attributes = attributes cv ++ attributes bn,
               execution_time_ms = 0, memory_usage_mb = 0\<rparr>]
          @ nodes (snd (operator_fusion self (graph\<lparr>nodes := post\<rparr>))))"
proof -
  have n: "nodes (graph\<lparr>nodes := xs\<rparr>) = xs" for xs by simp
  have p1: "op_type m1 = MATMUL \<and> op_type a1 = RELU \<and> can_fuse m1 a1 \<longrightarrow>
      fuse_nodes (pre @ [m1, a1] @ post)
        = fuse_nodes pre @ [fuse_matmul_activation m1 a1 FUSED_MATMUL_RELU] @ fuse_nodes post"
    by (intro impI fuse_nodes_at_match) auto
  have p2: "op_type m2 = MATMUL \<and> op_type a2 = GELU \<and> can_fuse m2 a2 \<longrightarrow>
      fuse_nodes (pre @ [m2, a2] @ post)
        = fuse_nodes pre @ [fuse_matmul_activation m2 a2 FUSED_MATMUL_GELU] @ fuse_nodes post"
    by (intro impI fuse_nodes_at_match) auto
  have p3: "op_type lnorm = LAYERNORM \<and> op_type attn \<in> {ATTENTION, MULTI_HEAD_ATTENTION}
        \<and> can_fuse lnorm attn \<longrightarrow>
      fuse_nodes (pre @ [lnorm, attn] @ post)
        = fuse_nodes pre @ [fuse_layernorm_attention lnorm attn] @ fuse_nodes post"
    by (intro impI fuse_nodes_at_match) auto
  have p4: "op_type cv = CONV2D \<and> op_type bn = BATCHNORM \<and> op_type rl = RELU
        \<and> can_fuse_triple cv bn rl \<longrightarrow>
      fuse_nodes (pre @ [cv, bn, rl] @ post)
        = fuse_nodes pre @ [fuse_conv_bn_relu cv bn rl] @ fuse_nodes post"
    by (intro impI fuse_nodes_at_match) auto
  from p1 p2 p3 p4 show ?thesis
    unfolding nodes_operator_fusion n fuse_matmul_activation_def fuse_layernorm_attention_def
      fuse_conv_bn_relu_def GraphNode_init_def
    by (intro conjI)
qed


theorem fused_node_construction_witness:
  "nodes (snd (operator_fusion (ModelCompiler_init 2) (gelu_graph\<lparr>nodes := [attr_matmul, act_node]\<rparr>)))
     = [GraphNode_init 0 FUSED_MATMUL_RELU ''fused_fc_act'' [0, 1] [3] [''transpose_b'' \<mapsto> 1]]
   \<and> nodes (snd (operator_fusion (ModelCompiler_init 2) (gelu_graph\<lparr>nodes := [attr_matmul, attr_gelu]\<rparr>)))
     = [GraphNode_init 0 FUSED_MATMUL_GELU ''fused_fc_act'' [0, 1] [3] [''transpose_b'' \<mapsto> 1]]
   \<and> nodes (snd (operator_fusion (ModelCompiler_init 2) (gelu_graph\<lparr>nodes := [ln_node, attn_node]\<rparr>)))
     = [GraphNode_init 2 FUSED_LAYERNORM_ATTENTION ''fused_ln_attn_2'' [3] [5]
          [''eps'' \<mapsto> 1, ''num_heads'' \<mapsto> 8]]
   \<and> nodes (snd (operator_fusion (ModelCompiler_init 2)
                  (gelu_graph\<lparr>nodes := [conv_node, bn_node, act_node]\<rparr>)))
     = [GraphNode_init 12 FUSED_CONV_BATCHNORM_RELU ''fused_conv_bn_relu_12'' [0] [3]
          [''stride'' \<mapsto> 2, ''eps'' \<mapsto> 5]]"
proof -
  have e: "nodes (snd (operator_fusion (ModelCompiler_init 2) (gelu_graph\<lparr>nodes := []\<rparr>))) = []"
    by (simp add: nodes_operator_fusion)
  have h: "op_type attr_matmul = MATMUL" "op_type act_node = RELU" "can_fuse attr_matmul act_node"
    "op_type attr_gelu = GELU" "can_fuse attr_matmul attr_gelu"
    "op_type ln_node = LAYERNORM" "op_type attn_node = MULTI_HEAD_ATTENTION"
    "can_fuse ln_node attn_node"
    "op_type conv_node = CONV2D" "op_type bn_node = BATCHNORM"
    "can_fuse_triple conv_node bn_node act_node"
    by (simp_all add: attr_matmul_def act_node_def attr_gelu_def ln_node_def attn_node_def
        conv_node_def bn_node_def GraphNode_init_def can_fuse_def can_fuse_triple_def)
  note t = fused_node_construction
      [where self = "ModelCompiler_init 2" and graph = gelu_graph and pre = "[]" and post = "[]"
         and ?m1.0 = attr_matmul and ?a1.0 = act_node and ?m2.0 = attr_matmul and ?a2.0 = attr_gelu
         and lnorm = ln_node and attn = attn_node
         and cv = conv_node and bn = bn_node and rl = act_node]
  have v: "name attr_matmul = ''fc''" "name act_node = ''act''" "name attr_gelu = ''act''"
    "node_id attr_matmul = 0" "node_id ln_node = 2" "node_id conv_node = 12"
    "inputs attr_matmul = [0, 1]" "outputs act_node = [3]" "outputs attr_gelu = [3]"
    "inputs ln_node = [3]" "outputs attn_node = [5]" "inputs conv_node = [0]"
    "attributes attr_matmul = [''transpose_b'' \<mapsto> 1]"
    "attributes ln_node ++ attributes attn_node = [''eps'' \<mapsto> 1, ''num_heads'' \<mapsto> 8]"
    "attributes conv_node ++ attributes bn_node = [''stride'' \<mapsto> 2, ''eps'' \<mapsto> 5]"
    by (simp_all add: attr_matmul_def act_node_def attr_gelu_def ln_node_def attn_node_def
        conv_node_def bn_node_def GraphNode_init_def)
  from t h show ?thesis
    unfolding e by (simp add: v GraphNode_init_def str_int_examples)
qed

text \<open>
  C2, as stated, fails: the set of constant tensors is never seeded. In scenario 3, with
  the literals 0 and 1 as tensors of the model, compiling at level 1 leaves the Add node
  in place. With the literals written as nodes without inputs that carry a value (here of
  kind Multiply, the enumeration has no kind for constants), the Add node goes, and so do
  the two literal nodes, but nothing is computed: the tensor table is unchanged and no
  node of the result produces tensor 2, which the MatMul node still reads.
\<close>

theorem constant_folding_completeness_counterexample:
  "nodes (snd (compile 0 1 (ModelCompiler_init 1) literal_graph))
     = [GraphNode_init 0 ADD ''x'' [0, 1] [2] Map.empty,
        GraphNode_init 1 MATMUL ''y'' [2, 3] [4] Map.empty]
   \<and> nodes (snd (compile 0 1 (ModelCompiler_init 1) literal_nodes_graph))
     = [GraphNode_init 1 MATMUL ''y'' [2, 3] [4] Map.empty]
   \<and> tensors (snd (compile 0 1 (ModelCompiler_init 1) literal_nodes_graph))
     = tensors literal_nodes_graph"
  by (simp add: literal_graph_compile literal_nodes_graph_compile)
    (simp add: compile_def ModelCompiler_init_def Let_def split_beta
      constant_folding_frame dead_code_elimination_frame)

text \<open>
  C2, amended. The constant-folding pass starts with no constant tensor and makes one
  sweep that only deletes nodes: position \<open>i\<close> of the node list is deleted exactly
  when the node there is an Add or a Multiply node each of whose inputs is an output of a
  node at an earlier, deleted position; the nodes at the other positions remain, in their
  order, and the counter of folded constants grows by the number of deleted positions.
  The tensor table and the declared inputs and outputs are left as they are, so no tensor
  becomes a literal. A graph in which every Add or Multiply node has at least one input,
  as the graph of scenario 3, is returned unchanged, and the counter with it.
\<close>

theorem constant_folding_without_seed:
  "(\<exists>D. D \<subseteq> {..< length (nodes graph)}
        \<and> (\<forall>i < length (nodes graph).
              i \<in> D \<longleftrightarrow>
                op_type (nodes graph ! i) \<in> {ADD, MUL}
                \<and> (\<forall>t \<in> set (inputs (nodes graph ! i)).
                      \<exists>j < i. j \<in> D \<and> t \<in> set (outputs (nodes graph ! j))))
        \<and> nodes (snd (constant_folding self graph)) = nths (nodes graph) {i. i \<notin> D}
        \<and> constants_folded (stats (fst (constant_folding self graph)))
            = constants_folded (stats self) + int (card D))
   \<and> subseq (nodes (snd (constant_folding self graph))) (nodes graph)
   \<and> tensors (snd (constant_folding self graph)) = tensors graph
   \<and> input_ids (snd (constant_folding self graph)) = input_ids graph
   \<and> output_ids (snd (constant_folding self graph)) = output_ids graph
   \<and> ((\<forall>n \<in> set (nodes graph). op_type n \<in> {ADD, MUL} \<longrightarrow> inputs n \<noteq> []) \<longrightarrow>
         snd (constant_folding self graph) = graph
         \<and> constants_folded (stats (fst (constant_folding self graph)))
             = constants_folded (stats self))"
proof -
  let ?ns = "nodes graph"
  let ?D = "set (cf_idx {} 0 ?ns)"
  have d1: "?D \<subseteq> {..< length ?ns}"
    using cf_idx_range [of _ "{}" 0 ?ns] by auto
  have d2: "\<forall>i < length ?ns.
              i \<in> ?D \<longleftrightarrow>
                op_type (?ns ! i) \<in> {ADD, MUL}
                \<and> (\<forall>t \<in> set (inputs (?ns ! i)).
                      \<exists>j < i. j \<in> ?D \<and> t \<in> set (outputs (?ns ! j)))"
    using cf_idx_member [of _ ?ns 0 "{}"] by simp
  have d3: "nodes (snd (constant_folding self graph)) = nths ?ns {i. i \<notin> ?D}"
    unfolding nodes_constant_folding using cf_keep_nths [of "{}" ?ns 0] by simp
  have d4: "constants_folded (stats (fst (constant_folding self graph)))
            = constants_folded (stats self) + int (card ?D)"
    unfolding constants_folded_constant_folding
    by (simp add: distinct_card [OF cf_idx_distinct])
  from d1 d2 d3 d4 have d: "\<exists>D. D \<subseteq> {..< length ?ns}
        \<and> (\<forall>i < length ?ns.
              i \<in> D \<longleftrightarrow>
                op_type (?ns ! i) \<in> {ADD, MUL}
                \<and> (\<forall>t \<in> set (inputs (?ns ! i)).
                      \<exists>j < i. j \<in> D \<and> t \<in> set (outputs (?ns ! j))))
        \<and> nodes (snd (constant_folding self graph)) = nths ?ns {i. i \<notin> D}
        \<and> constants_folded (stats (fst (constant_folding self graph)))
            = constants_folded (stats self) + int (card D)"
    by (intro exI [of _ ?D] conjI)
  have a: "subseq (nodes (snd (constant_folding self graph))) ?ns"
    unfolding nodes_constant_folding by (rule cf_keep_subseq)
  have b: "tensors (snd (constant_folding self graph)) = tensors graph"
    by (rule constant_folding_frame)
  have b1: "input_ids (snd (constant_folding self graph)) = input_ids graph"
    by (rule constant_folding_frame)
  have b2: "output_ids (snd (constant_folding self graph)) = output_ids graph"
    by (rule constant_folding_frame)
  have c: "(\<forall>n \<in> set ?ns. op_type n \<in> {ADD, MUL} \<longrightarrow> inputs n \<noteq> []) \<longrightarrow>
         snd (constant_folding self graph) = graph
         \<and> constants_folded (stats (fst (constant_folding self graph)))
             = constants_folded (stats self)"
  proof
    assume h: "\<forall>n \<in> set ?ns. op_type n \<in> {ADD, MUL} \<longrightarrow> inputs n \<noteq> []"
    have "snd (constant_folding self graph) = graph"
      unfolding snd_constant_folding cf_keep_no_add_mul [OF h] by simp
    moreover have "constants_folded (stats (fst (constant_folding self graph)))
             = constants_folded (stats self)"
      unfolding constants_folded_constant_folding cf_idx_no_add_mul [OF h] by simp
    ultimately show "snd (constant_folding self graph) = graph
         \<and> constants_folded (stats (fst (constant_folding self graph)))
             = constants_folded (stats self)" ..
  qed
  from d a b b1 b2 c show ?thesis by (intro conjI)
qed

theorem constant_folding_without_seed_witness:
  "nodes literal_nodes_graph
     = [GraphNode_init 10 MUL ''lit1'' [] [0] [''value'' \<mapsto> 2],
        GraphNode_init 11 MUL ''lit2'' [] [1] [''value'' \<mapsto> 3],
        GraphNode_init 0 ADD ''x'' [0, 1] [2] Map.empty,
        GraphNode_init 1 MATMUL ''y'' [2, 3] [4] Map.empty]
   \<and> nodes (snd (constant_folding (ModelCompiler_init 1) literal_nodes_graph))
       = [GraphNode_init 1 MATMUL ''y'' [2, 3] [4] Map.empty]
   \<and> constants_folded (stats (fst (constant_folding (ModelCompiler_init 1) literal_nodes_graph)))
       = 3
   \<and> tensors (snd (constant_folding (ModelCompiler_init 1) literal_nodes_graph)) = Map.empty
   \<and> snd (constant_folding (ModelCompiler_init 1) literal_graph) = literal_graph
   \<and> constants_folded (stats (fst (constant_folding (ModelCompiler_init 1) literal_graph))) = 0"
proof -
  let ?c = "ModelCompiler_init 1"
  let ?ns = "[GraphNode_init 10 MUL ''lit1'' [] [0] [''value'' \<mapsto> 2],
        GraphNode_init 11 MUL ''lit2'' [] [1] [''value'' \<mapsto> 3],
        GraphNode_init 0 ADD ''x'' [0, 1] [2] Map.empty,
        GraphNode_init 1 MATMUL ''y'' [2, 3] [4] (Map.empty :: string \<rightharpoonup> int)]"
  note t = constant_folding_without_seed [of literal_nodes_graph ?c]
  note u = constant_folding_without_seed [of literal_graph ?c]
  have z: "constants_folded (stats ?c) = 0"
    by (simp add: ModelCompiler_init_def CompilationStats_init_def)
  have ns: "nodes literal_nodes_graph = ?ns"
    by (simp add: literal_nodes_graph_def ComputationalGraph_init_def)
  have tn: "tensors literal_nodes_graph = Map.empty"
    by (simp add: literal_nodes_graph_def ComputationalGraph_init_def)
  from t obtain D where D: "D \<subseteq> {..< length (nodes literal_nodes_graph)}"
    and m: "\<forall>i < length (nodes literal_nodes_graph).
              i \<in> D \<longleftrightarrow>
                op_type (nodes literal_nodes_graph ! i) \<in> {ADD, MUL}
                \<and> (\<forall>t \<in> set (inputs (nodes literal_nodes_graph ! i)).
                      \<exists>j < i. j \<in> D \<and> t \<in> set (outputs (nodes literal_nodes_graph ! j)))"
    and r: "nodes (snd (constant_folding ?c literal_nodes_graph))
              = nths (nodes literal_nodes_graph) {i. i \<notin> D}"
    and f: "constants_folded (stats (fst (constant_folding ?c literal_nodes_graph)))
            = constants_folded (stats ?c) + int (card D)"
    by blast
  from m have m0: "0 \<in> D" by (simp add: ns GraphNode_init_def)
  from m have m1: "1 \<in> D" by (simp add: ns GraphNode_init_def)
  from m have "2 \<in> D \<longleftrightarrow> (\<forall>t \<in> {0, 1 :: int}.
      \<exists>j < (2 :: nat). j \<in> D \<and> t \<in> set (outputs (?ns ! j)))"
    by (simp add: ns GraphNode_init_def)
  moreover have "\<forall>t \<in> {0, 1 :: int}. \<exists>j < (2 :: nat). j \<in> D \<and> t \<in> set (outputs (?ns ! j))"
    using m0 m1 by (auto simp: GraphNode_init_def intro: exI [of _ 0] exI [of _ 1])
  ultimately have m2: "2 \<in> D" by simp
  from m have m3: "3 \<notin> D" by (simp add: ns GraphNode_init_def)
  from D have "D \<subseteq> {0, 1, 2, 3}" by (auto simp: ns less_Suc_eq)
  with m0 m1 m2 m3 have De: "D = {0, 1, 2}" by auto
  have r': "nodes (snd (constant_folding ?c literal_nodes_graph))
       = [GraphNode_init 1 MATMUL ''y'' [2, 3] [4] Map.empty]"
    unfolding r ns De by (simp add: nths_Cons)
  have f': "constants_folded (stats (fst (constant_folding ?c literal_nodes_graph))) = 3"
    unfolding f De z by simp
  from t have "tensors (snd (constant_folding ?c literal_nodes_graph))
                 = tensors literal_nodes_graph"
    by (elim conjE)
  then have t': "tensors (snd (constant_folding ?c literal_nodes_graph)) = Map.empty"
    by (simp only: tn)
  have h: "\<forall>n \<in> set (nodes literal_graph). op_type n \<in> {ADD, MUL} \<longrightarrow> inputs n \<noteq> []"
    by (simp add: literal_graph_def ComputationalGraph_init_def GraphNode_init_def)
  from u have "(\<forall>n \<in> set (nodes literal_graph). op_type n \<in> {ADD, MUL} \<longrightarrow> inputs n \<noteq> []) \<longrightarrow>
         snd (constant_folding ?c literal_graph) = literal_graph
         \<and> constants_folded (stats (fst (constant_folding ?c literal_graph)))
             = constants_folded (stats ?c)"
    by (elim conjE)
  then have "snd (constant_folding ?c literal_graph) = literal_graph
         \<and> constants_folded (stats (fst (constant_folding ?c literal_graph)))
             = constants_folded (stats ?c)"
    using h by (rule mp)
  then have l: "snd (constant_folding ?c literal_graph) = literal_graph"
    "constants_folded (stats (fst (constant_folding ?c literal_graph))) = 0"
    by (simp_all add: z)
  from ns r' f' t' l show ?thesis by (intro conjI)
qed

text \<open>
  C7, as stated, fails: the profiling loop stores the simulated time in every node. The
  MatMul node of the sample graph has \<open>execution_time_ms = 0\<close> before profiling and
  \<open>5\<close> after.
\<close>

theorem profile_graph_frame_counterexample:
  "execution_time_ms (nodes sample_graph ! 0) = 0
   \<and> execution_time_ms (nodes (fst (profile_graph sample_graph)) ! 0) = 5"
  by (simp add: profile_graph_eq)
    (simp add: sample_graph_def ComputationalGraph_init_def GraphNode_init_def
      simulated_time_def set_time_def)

text \<open>
  C7, amended. Profiling leaves the tensor table, the input and output id lists and the
  \<open>optimized\<close> flag unchanged, and the node list node for node except for the field
  \<open>execution_time_ms\<close>, which it overwrites with the simulated time of the node's kind
  (5 for MatMul and Conv2D, 3.5 for the fused kinds, 0.5 otherwise). The report counts the
  nodes and adds up their simulated times; its breakdown has an entry exactly for the
  names of the kinds that occur, with the count of the nodes of the kind, the sum of
  their times, the quotient of that sum by the count, and 100 times the quotient of that
  sum by the total, each operation rounded as floating-point arithmetic rounds. For a
  graph of at most \<open>2^49\<close> nodes the additions are exact and so is the average: the
  total is the sum of the simulated times, and a kind with \<open>c\<close> nodes has \<open>c\<close>
  times its simulated time as total and that time as average; only the percentage is a
  rounded number.
\<close>

theorem profile_graph_frame:
  "nodes (fst (profile_graph graph))
     = map (\<lambda>n. n\<lparr>execution_time_ms := simulated_time (op_type n)\<rparr>) (nodes graph)
   \<and> tensors (fst (profile_graph graph)) = tensors graph
   \<and> input_ids (fst (profile_graph graph)) = input_ids graph
   \<and> output_ids (fst (profile_graph graph)) = output_ids graph
   \<and> optimized (fst (profile_graph graph)) = optimized graph
   \<and> simulated_time k =
        (if k \<in> {MATMUL, CONV2D} then 5
         else if k \<in> {FUSED_MATMUL_RELU, FUSED_MATMUL_GELU, FUSED_CONV_BATCHNORM_RELU,
                       FUSED_LAYERNORM_ATTENTION} then 7 / 2
         else 1 / 2)
   \<and> num_operations (snd (profile_graph graph)) = int (length (nodes graph))
   \<and> total_memory_mb (snd (profile_graph graph)) = 0
   \<and> total_execution_time_ms (snd (profile_graph graph))
        = fl_sum (map (\<lambda>n. simulated_time (op_type n)) (nodes graph))
   \<and> dom (op_breakdown (snd (profile_graph graph))) = OpType_name ` op_type ` set (nodes graph)
   \<and> op_breakdown (snd (profile_graph graph)) (OpType_name k)
        = (if k \<in> op_type ` set (nodes graph)
           then Some
             \<lparr>count = int (length (filter (\<lambda>n. op_type n = k) (nodes graph))),
              total_time_ms =
                fl_sum (replicate (length (filter (\<lambda>n. op_type n = k) (nodes graph)))
                          (simulated_time k)),
              avg_time_ms =
                fl_div (fl_sum (replicate (length (filter (\<lambda>n. op_type n = k) (nodes graph)))
                                  (simulated_time k)))
                       (real (length (filter (\<lambda>n. op_type n = k) (nodes graph)))),
              percentage =
                (if total_execution_time_ms (snd (profile_graph graph)) > 0
                 then fl_mul
                        (fl_div
                           (fl_sum (replicate (length (filter (\<lambda>n. op_type n = k) (nodes graph)))
                                      (simulated_time k)))
                           (total_execution_time_ms (snd (profile_graph graph))))
                        100
                 else 0)\<rparr>
           else None)
   \<and> (length (nodes graph) \<le> 2 ^ 49 \<longrightarrow>
        total_execution_time_ms (snd (profile_graph graph))
          = sum_list (map (\<lambda>n. simulated_time (op_type n)) (nodes graph))
        \<and> (k \<in> op_type ` set (nodes graph) \<longrightarrow>
             op_breakdown (snd (profile_graph graph)) (OpType_name k)
               = Some
                   \<lparr>count = int (length (filter (\<lambda>n. op_type n = k) (nodes graph))),
                    total_time_ms =
                      real (length (filter (\<lambda>n. op_type n = k) (nodes graph))) * simulated_time k,
                    avg_time_ms = simulated_time k,
                    percentage =
                      fl_mul
                        (fl_div
                           (real (length (filter (\<lambda>n. op_type n = k) (nodes graph)))
                              * simulated_time k)
                           (sum_list (map (\<lambda>n. simulated_time (op_type n)) (nodes graph))))
                        100\<rparr>))"
proof -
  let ?ns = "nodes graph"
  let ?c = "length (filter (\<lambda>n. op_type n = k) ?ns)"
  let ?t = "simulated_time k"
  let ?ts = "map (\<lambda>n. simulated_time (op_type n)) ?ns"
  let ?total = "total_execution_time_ms (snd (profile_graph graph))"
  have occ: "k \<in> op_type ` set ?ns \<longleftrightarrow> 0 < ?c"
    by (auto simp: filter_empty_conv)
  have nodes: "nodes (fst (profile_graph graph))
     = map (\<lambda>n. n\<lparr>execution_time_ms := simulated_time (op_type n)\<rparr>) ?ns"
    by (simp add: profile_graph_eq set_time_def [abs_def])
  have b: "op_breakdown (snd (profile_graph graph)) (OpType_name k)
        = (if 0 < ?c then Some (op_stats_of ?total (replicate ?c ?t)) else None)"
    by (simp add: profile_graph_eq times_of_kind)
  have b': "op_breakdown (snd (profile_graph graph)) (OpType_name k)
        = (if k \<in> op_type ` set ?ns
           then Some
             \<lparr>count = int ?c,
              total_time_ms = fl_sum (replicate ?c ?t),
              avg_time_ms = fl_div (fl_sum (replicate ?c ?t)) (real ?c),
              percentage =
                (if ?total > 0 then fl_mul (fl_div (fl_sum (replicate ?c ?t)) ?total) 100
                 else 0)\<rparr>
           else None)"
    unfolding b occ by (simp add: op_stats_of_def)
  have rest: "tensors (fst (profile_graph graph)) = tensors graph"
    "input_ids (fst (profile_graph graph)) = input_ids graph"
    "output_ids (fst (profile_graph graph)) = output_ids graph"
    "optimized (fst (profile_graph graph)) = optimized graph"
    "num_operations (snd (profile_graph graph)) = int (length ?ns)"
    "total_memory_mb (snd (profile_graph graph)) = 0"
    "?total = fl_sum ?ts"
    by (simp_all add: profile_graph_eq)
  have small: "length ?ns \<le> 2 ^ 49 \<longrightarrow>
        ?total = sum_list ?ts
        \<and> (k \<in> op_type ` set ?ns \<longrightarrow>
             op_breakdown (snd (profile_graph graph)) (OpType_name k)
               = Some \<lparr>count = int ?c, total_time_ms = real ?c * ?t, avg_time_ms = ?t,
                        percentage = fl_mul (fl_div (real ?c * ?t) (sum_list ?ts)) 100\<rparr>)"
  proof (intro impI conjI)
    assume n: "length ?ns \<le> 2 ^ 49"
    have "\<forall>t \<in> set ?ts. t \<in> {5, 7 / 2, 1 / 2}"
      using simulated_time_range by auto
    moreover from n have "length ?ts \<le> 2 ^ 49" by simp
    ultimately have "fl_sum ?ts = sum_list ?ts" by (rule fl_sum_times)
    with rest(7) show tot: "?total = sum_list ?ts" by simp
    assume k: "k \<in> op_type ` set ?ns"
    with occ have c: "0 < ?c" by simp
    have "?c \<le> length ?ns" by (rule length_filter_le)
    from le_trans [OF this n] have c': "length (replicate ?c ?t) \<le> 2 ^ 49" by simp
    have "\<forall>t \<in> set (replicate ?c ?t). t \<in> {5, 7 / 2, 1 / 2}"
      using simulated_time_range [of k] by auto
    from fl_sum_times [OF this c'] have s: "fl_sum (replicate ?c ?t) = real ?c * ?t"
      by (simp add: sum_list_replicate)
    have a: "fl_div (real ?c * ?t) (real ?c) = ?t"
      using simulated_time_range c by (rule fl_div_times)
    from k have "?ns \<noteq> []" by auto
    then have "0 < sum_list ?ts" by (rule sum_times_pos)
    then have pos: "0 < ?total" by (simp only: tot)
    from k pos show "op_breakdown (snd (profile_graph graph)) (OpType_name k)
               = Some \<lparr>count = int ?c, total_time_ms = real ?c * ?t, avg_time_ms = ?t,
                        percentage = fl_mul (fl_div (real ?c * ?t) (sum_list ?ts)) 100\<rparr>"
      unfolding b' by (simp add: s a tot)
  qed
  from nodes rest simulated_time_cases [of k] dom_profile_graph [of graph] b' small
  show ?thesis by (intro conjI)
qed

theorem profile_graph_frame_witness:
  "nodes sample_graph
     = [GraphNode_init 0 MATMUL ''fc1'' [0, 1] [2] Map.empty,
        GraphNode_init 1 RELU ''relu1'' [2] [3] Map.empty]
   \<and> nodes (fst (profile_graph sample_graph))
     = [(GraphNode_init 0 MATMUL ''fc1'' [0, 1] [2] Map.empty)\<lparr>execution_time_ms := 5\<rparr>,
        (GraphNode_init 1 RELU ''relu1'' [2] [3] Map.empty)\<lparr>execution_time_ms := 1 / 2\<rparr>]
   \<and> tensors (fst (profile_graph sample_graph)) = tensors sample_graph
   \<and> total_execution_time_ms (snd (profile_graph sample_graph)) = 11 / 2
   \<and> dom (op_breakdown (snd (profile_graph sample_graph))) = {''MATMUL'', ''RELU''}
   \<and> op_breakdown (snd (profile_graph sample_graph)) ''MATMUL''
       = Some \<lparr>count = 1, total_time_ms = 5, avg_time_ms = 5,
               percentage = 6397158561605818 / 2 ^ 46\<rparr>"
proof -
  note t = profile_graph_frame [of sample_graph MATMUL]
  have ns: "nodes sample_graph
              = [GraphNode_init 0 MATMUL ''fc1'' [0, 1] [2] Map.empty,
                 GraphNode_init 1 RELU ''relu1'' [2] [3] Map.empty]"
    by (simp add: sample_graph_def ComputationalGraph_init_def)
  have k: "op_type (GraphNode_init 0 MATMUL ''fc1'' [0, 1] [2] (Map.empty :: string \<rightharpoonup> int)) = MATMUL"
    "op_type (GraphNode_init 1 RELU ''relu1'' [2] [3] (Map.empty :: string \<rightharpoonup> int)) = RELU"
    by (simp_all add: GraphNode_init_def)
  have st: "simulated_time MATMUL = 5" "simulated_time RELU = 1 / 2"
    by (simp_all add: simulated_time_cases)
  have r1: "fl_round (10 / 11) = 8188362958855447 / 2 ^ 53"
    by (subst fl_round_scaled [of _ 53]) (simp_all add: round_even_def)
  have r2: "fl_round (8188362958855447 / 2 ^ 53 * 100) = 6397158561605818 / 2 ^ 46"
    by (subst fl_round_scaled [of _ 46]) (simp_all add: round_even_def)
  have "fl_div (real 1 * 5) (sum_list [5, 1 / 2]) = fl_round (10 / 11)"
    by (simp add: fl_div_def)
  then have p1: "fl_div (real 1 * 5) (sum_list [5, 1 / 2]) = 8188362958855447 / 2 ^ 53"
    by (simp only: r1)
  have p: "fl_mul (fl_div (real 1 * 5) (sum_list [5, 1 / 2])) 100 = 6397158561605818 / 2 ^ 46"
    unfolding fl_mul_def p1 by (rule r2)
  from t have a: "nodes (fst (profile_graph sample_graph))
     = [(GraphNode_init 0 MATMUL ''fc1'' [0, 1] [2] Map.empty)\<lparr>execution_time_ms := 5\<rparr>,
        (GraphNode_init 1 RELU ''relu1'' [2] [3] Map.empty)\<lparr>execution_time_ms := 1 / 2\<rparr>]"
    by (simp add: ns k st)
  from t have b: "tensors (fst (profile_graph sample_graph)) = tensors sample_graph"
    by (elim conjE)
  from t have "dom (op_breakdown (snd (profile_graph sample_graph)))
                 = OpType_name ` op_type ` set (nodes sample_graph)"
    by (elim conjE)
  then have d: "dom (op_breakdown (snd (profile_graph sample_graph))) = {''MATMUL'', ''RELU''}"
    by (simp add: ns k)
  from t have "length (nodes sample_graph) \<le> 2 ^ 49 \<longrightarrow>
        total_execution_time_ms (snd (profile_graph sample_graph))
          = sum_list (map (\<lambda>n. simulated_time (op_type n)) (nodes sample_graph))
        \<and> (MATMUL \<in> op_type ` set (nodes sample_graph) \<longrightarrow>
             op_breakdown (snd (profile_graph sample_graph)) (OpType_name MATMUL)
               = Some
                   \<lparr>count = int (length (filter (\<lambda>n. op_type n = MATMUL) (nodes sample_graph))),
                    total_time_ms =
                      real (length (filter (\<lambda>n. op_type n = MATMUL) (nodes sample_graph)))
                        * simulated_time MATMUL,
                    avg_time_ms = simulated_time MATMUL,
                    percentage =
                      fl_mul
                        (fl_div
                           (real (length (filter (\<lambda>n. op_type n = MATMUL) (nodes sample_graph)))
                              * simulated_time MATMUL)
                           (sum_list (map (\<lambda>n. simulated_time (op_type n)) (nodes sample_graph))))
                        100\<rparr>)"
    by (elim conjE)
  moreover have "length (nodes sample_graph) \<le> 2 ^ 49" by (simp add: ns)
  ultimately have e: "total_execution_time_ms (snd (profile_graph sample_graph))
          = sum_list (map (\<lambda>n. simulated_time (op_type n)) (nodes sample_graph))
        \<and> (MATMUL \<in> op_type ` set (nodes sample_graph) \<longrightarrow>
             op_breakdown (snd (profile_graph sample_graph)) (OpType_name MATMUL)
               = Some
                   \<lparr>count = int (length (filter (\<lambda>n. op_type n = MATMUL) (nodes sample_graph))),
                    total_time_ms =
                      real (length (filter (\<lambda>n. op_type n = MATMUL) (nodes sample_graph)))
                        * simulated_time MATMUL,
                    avg_time_ms = simulated_time MATMUL,
                    percentage =
                      fl_mul
                        (fl_div
                           (real (length (filter (\<lambda>n. op_type n = MATMUL) (nodes sample_graph)))
                              * simulated_time MATMUL)
                           (sum_list (map (\<lambda>n. simulated_time (op_type n)) (nodes sample_graph))))
                        100\<rparr>)"
    by (rule mp)
  then have c: "total_execution_time_ms (snd (profile_graph sample_graph)) = 11 / 2"
    by (simp add: ns k st)
  from e have "op_breakdown (snd (profile_graph sample_graph)) (OpType_name MATMUL)
       = Some \<lparr>count = 1, total_time_ms = 5, avg_time_ms = 5,
               percentage = fl_mul (fl_div (real 1 * 5) (sum_list [5, 1 / 2])) 100\<rparr>"
    by (simp add: ns k st)
  then have f: "op_breakdown (snd (profile_graph sample_graph)) ''MATMUL''
       = Some \<lparr>count = 1, total_time_ms = 5, avg_time_ms = 5,
               percentage = 6397158561605818 / 2 ^ 46\<rparr>"
    unfolding p by simp
  from ns a b c d f show ?thesis by (intro conjI)
qed

text \<open>
  C8. The counters \<open>ops_fused\<close>, \<open>constants_folded\<close> and \<open>dead_ops_removed\<close> are only
  ever incremented, and \<^verbatim>\<open>compile\<close> does not reset them, while it overwrites
  \<open>original_ops\<close>, \<open>optimized_ops\<close> and the compilation time. A compiler at level 2
  that compiles the two-node sample graph (MatMul, ReLU) twice, each time from a freshly
  built graph, fuses one pair in each run; after the second run it reports two original
  nodes, one optimized node and two fused operations.
\<close>

theorem stats_accumulate_over_compiles:
  "ops_fused (stats (fst (compile 0 1 (ModelCompiler_init 2) sample_graph))) = 1
   \<and> ops_fused (stats (fst (compile 1 2
          (fst (compile 0 1 (ModelCompiler_init 2) sample_graph)) sample_graph))) = 2
   \<and> original_ops (stats (fst (compile 1 2
          (fst (compile 0 1 (ModelCompiler_init 2) sample_graph)) sample_graph))) = 2
   \<and> optimized_ops (stats (fst (compile 1 2
          (fst (compile 0 1 (ModelCompiler_init 2) sample_graph)) sample_graph))) = 1"
proof -
  have a: "ops_fused (stats (ModelCompiler_init 2)) = 0"
    "optimization_level (ModelCompiler_init 2) = 2"
    by (simp_all add: ModelCompiler_init_def CompilationStats_init_def)
  note one = sample_graph_compile [OF a, of 0 1]
  then have b: "ops_fused (stats (fst (compile 0 1 (ModelCompiler_init 2) sample_graph))) = 1"
    "optimization_level (fst (compile 0 1 (ModelCompiler_init 2) sample_graph)) = 2"
    by simp_all
  note two = sample_graph_compile [OF b, of 1 2]
  from b(1) two show ?thesis by simp
qed

end
